theory Spec2Isabelle
  imports Main "HOL-Library.AList"
begin

unbundle bit_operations_syntax

section \<open>Data model of scripts/merge.py\<close>

text \<open>
  A Python \<open>dict\<close> is an association list: lookup is \<open>map_of\<close>, assignment
  \<open>d[k] = v\<close> is \<open>AList.update k v d\<close> (an existing key keeps its position, a new key
  goes to the end, which is the insertion order Python iterates in).
\<close>

type_synonym ('k, 'v) dict = "('k \<times> 'v) list"

definition keys :: "('k, 'v) dict \<Rightarrow> 'k set" where
  "keys d = fst ` set d"

text \<open>The exceptions the merge code can meet.\<close>

datatype error = ValueError | KeyError | RecursionError | BoundsError

text \<open>
  A call that mutates its arguments and may raise: the state reached is kept in both
  cases, since Python does not undo the writes made before an exception.
\<close>

datatype 'a outcome = Returned 'a | Raised error 'a

text \<open>A codepoint is an unsigned scalar; glyph names are strings.\<close>

type_synonym codepoint = nat

record subtable =
  platformID :: nat
  platEncID :: nat
  format :: nat
  language :: nat
  cmap :: "(codepoint, string) dict"

record component =
  glyphName :: string
  x_offset :: int
  y_offset :: int

text \<open>
  A glyph of the outline table. \<open>components\<close> is the empty list for a glyph object
  that has no such attribute (the source tests
  \<open>hasattr(g, "components") and g.components\<close>, which is false in both cases);
  \<open>yMax\<close> is \<open>None\<close> when the attribute is missing or \<open>None\<close>.
\<close>

record glyph =
  numberOfContours :: int
  components :: "component list"
  coordinates :: "(int \<times> int) list"
  yMax :: "int option"

record os2_table =
  sTypoAscender :: int
  sTypoDescender :: int
  sTypoLineGap :: int
  usWinAscent :: int
  usWinDescent :: int
  fsSelection :: int
  fsType :: int
  sxHeight :: int
  sCapHeight :: int
  ulUnicodeRange1 :: int
  ulUnicodeRange2 :: int
  ulUnicodeRange3 :: int
  ulUnicodeRange4 :: int

record hhea_table =
  ascent :: int
  descent :: int
  lineGap :: int

record vhea_table =
  advanceHeightMax :: int
  vert_ascent :: int
  numberOfVMetrics :: nat

text \<open>
  The font container, with the tables the merge reads or writes. \<open>vhea\<close> and
  \<open>vmtx\<close> are optional tables.
\<close>

record font =
  cmap_tables :: "subtable list"
  glyf :: "(string, glyph) dict"
  hmtx :: "(string, int \<times> int) dict"
  glyphOrder :: "string list"
  os2 :: os2_table
  hhea :: hhea_table
  vhea :: "vhea_table option"
  vmtx :: "(string, int \<times> int) dict option"

section \<open>Cmap Resolver: \<open>get_best_cmap\<close>\<close>

text \<open>One \<open>for subtable in cmap_table.tables: if ...: return dict(subtable.cmap)\<close> loop.\<close>

fun first_cmap :: "(subtable \<Rightarrow> bool) \<Rightarrow> subtable list \<Rightarrow> (codepoint, string) dict option" where
  "first_cmap p [] = None"
| "first_cmap p (t # ts) = (if p t then Some (cmap t) else first_cmap p ts)"

definition win_full :: "subtable \<Rightarrow> bool" where
  "win_full t \<longleftrightarrow> platformID t = 3 \<and> platEncID t = 10"

definition win_bmp :: "subtable \<Rightarrow> bool" where
  "win_bmp t \<longleftrightarrow> platformID t = 3 \<and> platEncID t = 1"

definition uni_platform :: "subtable \<Rightarrow> bool" where
  "uni_platform t \<longleftrightarrow> platformID t = 0"

definition get_best_cmap :: "font \<Rightarrow> error + (codepoint, string) dict" where
  "get_best_cmap f =
     (case first_cmap win_full (cmap_tables f) of
        Some m \<Rightarrow> Inr m
      | None \<Rightarrow>
         (case first_cmap win_bmp (cmap_tables f) of
            Some m \<Rightarrow> Inr m
          | None \<Rightarrow>
             (case first_cmap uni_platform (cmap_tables f) of
                Some m \<Rightarrow> Inr m
              | None \<Rightarrow> Inl ValueError)))"

text \<open>
  \<open>first_at p ts i\<close>: position \<open>i\<close> holds the first subtable of \<open>ts\<close> that
  satisfies \<open>p\<close>.
\<close>

definition first_at :: "(subtable \<Rightarrow> bool) \<Rightarrow> subtable list \<Rightarrow> nat \<Rightarrow> bool" where
  "first_at p ts i \<longleftrightarrow> i < length ts \<and> p (ts ! i) \<and> (\<forall>j < i. \<not> p (ts ! j))"

section \<open>Cmap Coverage Synthesizer: \<open>ensure_cmap_subtables\<close>\<close>

definition ensure_cmap_subtables :: "font \<Rightarrow> error + font" where
  "ensure_cmap_subtables f =
     (let has_format4 = list_ex (\<lambda>t. format t = 4) (cmap_tables f);
          has_format12 = list_ex (\<lambda>t. format t = 12) (cmap_tables f)
      in case get_best_cmap f of
           Inl e \<Rightarrow> Inl e
         | Inr best \<Rightarrow>
            (let f1 = (if \<not> has_format4
                       then f\<lparr>cmap_tables := cmap_tables f @
                              [\<lparr>platformID = 3, platEncID = 1, format = 4, language = 0,
                                cmap = filter (\<lambda>(k, v). k \<le> 0xFFFF) best\<rparr>]\<rparr>
                       else f);
                 f2 = (if \<not> has_format12
                       then f1\<lparr>cmap_tables := cmap_tables f1 @
                              [\<lparr>platformID = 3, platEncID = 10, format = 12, language = 0,
                                cmap = best\<rparr>]\<rparr>
                       else f1)
             in Inr f2))"

section \<open>Glyph Transplanter: \<open>copy_glyph\<close>, \<open>update_cmap\<close>, \<open>transplant_glyphs\<close>\<close>

text \<open>\<open>copy.deepcopy\<close>: glyphs and metrics are values here, so the copy is the value.\<close>

definition deepcopy :: "'a \<Rightarrow> 'a" where
  "deepcopy v = v"

text \<open>The name \<open>f"_ens_{comp_src}"\<close> of a copied component.\<close>

definition ens_name :: "string \<Rightarrow> string" where
  "ens_name comp_src = ''_ens_'' @ comp_src"

text \<open>
  \<open>copy_glyph d src dst src_name dst_name\<close>. The pair of fonts is the state: the
  donor \<open>src\<close> is threaded through and returned with the base \<open>dst\<close>. The first
  argument is the number of nested \<open>copy_glyph\<close> frames the interpreter still allows:
  at \<open>0\<close> the call raises \<open>RecursionError\<close>, as Python does at its recursion limit
  (a donor whose composites refer to each other in a cycle gets there).
  \<open>copy_components\<close> is the \<open>for component in src_glyph.components\<close> loop over the
  private deep copy; it returns the components with their names rewritten so far.
\<close>

fun copy_glyph :: "nat \<Rightarrow> font \<Rightarrow> font \<Rightarrow> string \<Rightarrow> string \<Rightarrow> (font \<times> font) outcome"
and copy_components ::
  "nat \<Rightarrow> font \<Rightarrow> font \<Rightarrow> component list \<Rightarrow> (font \<times> font \<times> component list) outcome"
where
  "copy_glyph 0 src dst src_name dst_name = Raised RecursionError (src, dst)"
| "copy_glyph (Suc d) src dst src_name dst_name =
     (if dst_name \<in> keys (glyf dst) then Returned (src, dst)
      else case map_of (glyf src) src_name of
             None \<Rightarrow> Raised KeyError (src, dst)
           | Some src_glyph \<Rightarrow>
              (case (if components src_glyph \<noteq> []
                     then copy_components d src dst (components (deepcopy src_glyph))
                     else Returned (src, dst, components src_glyph)) of
                 Raised e (src', dst', comps) \<Rightarrow> Raised e (src', dst')
               | Returned (src', dst', comps) \<Rightarrow>
                  (let dst1 = dst'\<lparr>glyf := AList.update dst_name
                                 (deepcopy (src_glyph\<lparr>components := comps\<rparr>)) (glyf dst')\<rparr>
                   in case map_of (hmtx src') src_name of
                        None \<Rightarrow> Raised KeyError (src', dst1)
                      | Some m \<Rightarrow>
                         Returned (src', dst1\<lparr>hmtx := AList.update dst_name (deepcopy m) (hmtx dst1)\<rparr>))))"
| "copy_components d src dst [] = Returned (src, dst, [])"
| "copy_components d src dst (c # cs) =
     (case copy_glyph d src dst (glyphName c) (ens_name (glyphName c)) of
        Raised e (src', dst') \<Rightarrow> Raised e (src', dst', c # cs)
      | Returned (src', dst') \<Rightarrow>
         (case copy_components d src' dst' cs of
            Raised e (src'', dst'', cs') \<Rightarrow>
              Raised e (src'', dst'', c\<lparr>glyphName := ens_name (glyphName c)\<rparr> # cs')
          | Returned (src'', dst'', cs') \<Rightarrow>
              Returned (src'', dst'', c\<lparr>glyphName := ens_name (glyphName c)\<rparr> # cs')))"

text \<open>The body of the loop of \<open>update_cmap\<close>, for one subtable.\<close>

definition update_subtable :: "codepoint \<Rightarrow> string \<Rightarrow> subtable \<Rightarrow> subtable" where
  "update_subtable codepoint glyph_name t =
     (let bmp = (codepoint \<le> 0xFFFF); fmt = format t
      in if platformID t \<noteq> 0 \<and> platformID t \<noteq> 3 then t
         else if bmp \<and> (fmt = 4 \<or> fmt = 6)
           then t\<lparr>cmap := AList.update codepoint glyph_name (cmap t)\<rparr>
         else if fmt = 12 \<or> fmt = 13
           then t\<lparr>cmap := AList.update codepoint glyph_name (cmap t)\<rparr>
         else if platformID t = 0 \<and> (fmt = 3 \<or> fmt = 4) \<and> bmp
           then t\<lparr>cmap := AList.update codepoint glyph_name (cmap t)\<rparr>
         else t)"

definition update_cmap :: "font \<Rightarrow> codepoint \<Rightarrow> string \<Rightarrow> font" where
  "update_cmap f codepoint glyph_name =
     f\<lparr>cmap_tables := map (update_subtable codepoint glyph_name) (cmap_tables f)\<rparr>"

text \<open>
  Python's \<open>format(n, "X")\<close>: the upper-case hexadecimal digits of \<open>n\<close>, and
  \<open>format(n, "0wX")\<close>, which pads with zeros on the left to at least \<open>w\<close> characters.
\<close>

definition hex_digit :: "nat \<Rightarrow> char" where
  "hex_digit d = ''0123456789ABCDEF'' ! d"

fun hex_upper :: "nat \<Rightarrow> string" where
  "hex_upper n = (if n < 16 then [hex_digit n] else hex_upper (n div 16) @ [hex_digit (n mod 16)])"

declare hex_upper.simps [simp del]

definition format_X :: "nat \<Rightarrow> nat \<Rightarrow> string" where
  "format_X width n = replicate (width - length (hex_upper n)) CHR ''0'' @ hex_upper n"

definition glyph_name_for_codepoint :: "codepoint \<Rightarrow> string \<Rightarrow> string" where
  "glyph_name_for_codepoint codepoint prefix =
     (if codepoint \<le> 0xFFFF then prefix @ ''uni'' @ format_X 4 codepoint
      else prefix @ ''u'' @ format_X 6 codepoint)"

text \<open>
  The loop of \<open>transplant_glyphs\<close> over \<open>src_cmap.items()\<close>; the state is the two
  fonts and \<open>count\<close>. An exception of \<open>copy_glyph\<close> is caught: the writes it made
  stay, the cmap is not updated and the count is not incremented.
\<close>

fun transplant_loop ::
  "nat \<Rightarrow> string \<Rightarrow> (codepoint \<times> string) list \<Rightarrow> font \<times> font \<times> nat \<Rightarrow> font \<times> font \<times> nat" where
  "transplant_loop d prefix [] st = st"
| "transplant_loop d prefix ((cp, src_glyph_name) # rest) (src, dst, count) =
     (let dst_glyph_name = glyph_name_for_codepoint cp prefix
      in case copy_glyph d src dst src_glyph_name dst_glyph_name of
           Returned (src', dst') \<Rightarrow>
             transplant_loop d prefix rest (src', update_cmap dst' cp dst_glyph_name, count + 1)
         | Raised e (src', dst') \<Rightarrow>
             transplant_loop d prefix rest (src', dst', count))"

definition transplant_glyphs :: "nat \<Rightarrow> font \<Rightarrow> font \<Rightarrow> string \<Rightarrow> error + (font \<times> font \<times> nat)" where
  "transplant_glyphs d src_font dst_font prefix =
     (case get_best_cmap src_font of
        Inl e \<Rightarrow> Inl e
      | Inr src_cmap \<Rightarrow> Inr (transplant_loop d prefix src_cmap (src_font, dst_font, 0)))"

section \<open>Notions for stating what the transplanter does\<close>

text \<open>
  Reading a hexadecimal string back: the value of a digit is its position among the
  sixteen digits, and \<open>hex_value\<close> is the number a digit string denotes.
\<close>

definition digit_val :: "char \<Rightarrow> nat" where
  "digit_val c = length (takeWhile (\<lambda>x. x \<noteq> c) ''0123456789ABCDEF'')"

definition hex_value :: "string \<Rightarrow> nat" where
  "hex_value s = foldl (\<lambda>acc c. 16 * acc + digit_val c) 0 s"

text \<open>The state an outcome carries, and whether the call returned.\<close>

fun outcome_state :: "'a outcome \<Rightarrow> 'a" where
  "outcome_state (Returned s) = s"
| "outcome_state (Raised e s) = s"

fun returned :: "'a outcome \<Rightarrow> bool" where
  "returned (Returned s) = True"
| "returned (Raised e s) = False"

text \<open>
  \<open>outlines_only f f'\<close>: \<open>f'\<close> differs from \<open>f\<close> at most in the outline table and
  the horizontal metrics.
\<close>

definition outlines_only :: "font \<Rightarrow> font \<Rightarrow> bool" where
  "outlines_only f f' \<longleftrightarrow> f'\<lparr>glyf := glyf f, hmtx := hmtx f\<rparr> = f"

text \<open>The copy of a donor glyph as \<open>copy_glyph\<close> inserts it: components renamed.\<close>

definition rename_component :: "component \<Rightarrow> component" where
  "rename_component c = c\<lparr>glyphName := ens_name (glyphName c)\<rparr>"

definition renamed :: "glyph \<Rightarrow> glyph" where
  "renamed g = g\<lparr>components := map rename_component (components g)\<rparr>"

text \<open>
  \<open>kept f f'\<close>: every glyph of the outline table of \<open>f\<close> has the same outline and the
  same horizontal metrics in \<open>f'\<close>.
\<close>

definition kept :: "font \<Rightarrow> font \<Rightarrow> bool" where
  "kept f f' \<longleftrightarrow> (\<forall>n \<in> keys (glyf f).
      map_of (glyf f') n = map_of (glyf f) n \<and> map_of (hmtx f') n = map_of (hmtx f) n)"

text \<open>
  Two calls one after the other: when the first raises, the second is not made.
\<close>

fun and_then :: "'a outcome \<Rightarrow> ('a \<Rightarrow> 'a outcome) \<Rightarrow> 'a outcome" where
  "and_then (Returned s) k = k s"
| "and_then (Raised e s) k = Raised e s"

text \<open>
  \<open>copied_from src f' k\<close>: the glyph \<open>k\<close> of \<open>f'\<close> is the copy of a donor glyph
  \<open>x\<close> made under the name \<open>_ens_x\<close>, outline (components renamed) and horizontal
  metrics.
\<close>

definition copied_from :: "font \<Rightarrow> font \<Rightarrow> string \<Rightarrow> bool" where
  "copied_from src f' k \<longleftrightarrow>
     (\<exists>x g m. k = ens_name x \<and> map_of (glyf src) x = Some g \<and> map_of (glyf f') k = Some (renamed g)
        \<and> map_of (hmtx src) x = Some m \<and> map_of (hmtx f') k = Some m)"


section \<open>Notions for stating what the transplant loop does\<close>

text \<open>
  The glyph name the resolved cmap of a font gives a codepoint (\<open>None\<close> when the
  codepoint is not mapped, or when the font has no usable subtable).
\<close>

definition cmap_lookup :: "font \<Rightarrow> codepoint \<Rightarrow> string option" where
  "cmap_lookup f cp = (case get_best_cmap f of Inl e \<Rightarrow> None | Inr m \<Rightarrow> map_of m cp)"

text \<open>
  \<open>same_at cp f f'\<close>: the two fonts have the same subtables, one by one, as to
  platform, encoding and format, and each subtable maps \<open>cp\<close> as before.
\<close>

definition same_at :: "codepoint \<Rightarrow> font \<Rightarrow> font \<Rightarrow> bool" where
  "same_at cp f f' \<longleftrightarrow>
     list_all2 (\<lambda>t t'. platformID t' = platformID t \<and> platEncID t' = platEncID t
                  \<and> format t' = format t \<and> map_of (cmap t') cp = map_of (cmap t) cp)
       (cmap_tables f) (cmap_tables f')"

text \<open>
  The state of the loop of \<open>transplant_glyphs\<close> after its first \<open>k\<close> iterations, and
  whether the \<open>copy_glyph\<close> call of iteration \<open>k\<close> (counted from \<open>0\<close>) returns.
\<close>

definition state_after ::
  "nat \<Rightarrow> string \<Rightarrow> (codepoint \<times> string) list \<Rightarrow> font \<times> font \<times> nat \<Rightarrow> nat \<Rightarrow> font \<times> font \<times> nat" where
  "state_after d prefix es st k = transplant_loop d prefix (take k es) st"

definition copy_ok ::
  "nat \<Rightarrow> string \<Rightarrow> (codepoint \<times> string) list \<Rightarrow> font \<times> font \<times> nat \<Rightarrow> nat \<Rightarrow> bool" where
  "copy_ok d prefix es st k =
     (case state_after d prefix es st k of
        (src, dst, count) \<Rightarrow>
          returned (copy_glyph d src dst (snd (es ! k))
                      (glyph_name_for_codepoint (fst (es ! k)) prefix)))"

section \<open>Glyph Order Reconciler: \<open>fix_glyph_order\<close>\<close>

text \<open>
  \<open>set(font["glyf"].keys())\<close> is iterated in an order Python does not specify. The
  parameter \<open>iter\<close> gives that order: from the list of keys, the elements of the set,
  each once. \<open>set_iteration\<close> says so.
\<close>

definition set_iteration :: "('a list \<Rightarrow> 'a list) \<Rightarrow> 'a list \<Rightarrow> bool" where
  "set_iteration iter ks \<longleftrightarrow> distinct (iter ks) \<and> set (iter ks) = set ks"

definition fix_glyph_order :: "(string list \<Rightarrow> string list) \<Rightarrow> font \<Rightarrow> font" where
  "fix_glyph_order iter f =
     (let existing_order = glyphOrder f;
          glyf_names = iter (map fst (glyf f));
          new_glyphs = filter (\<lambda>g. g \<notin> set existing_order) glyf_names
      in if new_glyphs \<noteq> [] then f\<lparr>glyphOrder := existing_order @ new_glyphs\<rparr> else f)"

section \<open>Metrics Synchronizer: \<open>set_os2_metrics\<close>\<close>

definition set_os2_metrics :: "font \<Rightarrow> font \<Rightarrow> font" where
  "set_os2_metrics f meslo_ref =
     (let ref_os2 = os2 meslo_ref; ref_hhea = hhea meslo_ref;
          o1 = (os2 f)\<lparr>sTypoAscender := sTypoAscender ref_os2,
                       sTypoDescender := sTypoDescender ref_os2,
                       sTypoLineGap := sTypoLineGap ref_os2,
                       usWinAscent := usWinAscent ref_os2,
                       usWinDescent := usWinDescent ref_os2\<rparr>;
          h1 = (hhea f)\<lparr>ascent := ascent ref_hhea,
                        descent := descent ref_hhea,
                        lineGap := lineGap ref_hhea\<rparr>;
          o2 = o1\<lparr>fsSelection := fsSelection o1 OR 0x80\<rparr>;
          o3 = o2\<lparr>fsType := 0\<rparr>;
          o4 = o3\<lparr>sxHeight := sxHeight ref_os2, sCapHeight := sCapHeight ref_os2\<rparr>;
          o5 = o4\<lparr>ulUnicodeRange1 := ulUnicodeRange1 ref_os2 OR ulUnicodeRange1 o4\<rparr>;
          o6 = o5\<lparr>ulUnicodeRange2 := ulUnicodeRange2 ref_os2 OR ulUnicodeRange2 o5\<rparr>;
          o7 = o6\<lparr>ulUnicodeRange3 := ulUnicodeRange3 ref_os2 OR ulUnicodeRange3 o6\<rparr>;
          o8 = o7\<lparr>ulUnicodeRange4 := ulUnicodeRange4 ref_os2 OR ulUnicodeRange4 o7\<rparr>
      in f\<lparr>os2 := o8, hhea := h1\<rparr>)"

text \<open>
  The rule of the docstring of \<open>set_os2_metrics\<close>:
  \<open>hhea.ascent == OS/2.usWinAscent == OS/2.sTypoAscender\<close> and
  \<open>hhea.descent == -OS/2.usWinDescent == OS/2.sTypoDescender\<close>.
\<close>

definition metrics_consistent :: "font \<Rightarrow> bool" where
  "metrics_consistent f \<longleftrightarrow>
     ascent (hhea f) = usWinAscent (os2 f) \<and> usWinAscent (os2 f) = sTypoAscender (os2 f)
     \<and> descent (hhea f) = - usWinDescent (os2 f) \<and> - usWinDescent (os2 f) = sTypoDescender (os2 f)"

section \<open>Vertical Metrics Rebuilder: \<open>rebuild_vmtx\<close>\<close>

text \<open>
  \<open>g.recalcBounds(glyf_table)\<close> is a method of the font library. It is a parameter
  \<open>rb\<close> here: from the outline table and the glyph it gives the glyph with its bounds
  recomputed, or raises.

  \<open>compute_tsb\<close> is the \<open>try\<close> block of the loop: it returns the outline table
  (the glyph object keeps its recomputed bounds) and \<open>tsb\<close>, which stays \<open>0\<close> when
  the lookup or \<open>recalcBounds\<close> raises.
\<close>

type_synonym recalc = "(string, glyph) dict \<Rightarrow> glyph \<Rightarrow> error + glyph"

definition compute_tsb ::
  "recalc \<Rightarrow> int \<Rightarrow> (string, glyph) dict \<Rightarrow> string \<Rightarrow> (string, glyph) dict \<times> int" where
  "compute_tsb rb vert_asc glyf_table name =
     (case map_of glyf_table name of
        None \<Rightarrow> (glyf_table, 0)
      | Some g \<Rightarrow>
         (if numberOfContours g \<noteq> 0 then
            (case rb glyf_table g of
               Inl e \<Rightarrow> (glyf_table, 0)
             | Inr g' \<Rightarrow>
                (AList.update name g' glyf_table,
                 (case yMax g' of Some y \<Rightarrow> vert_asc - y | None \<Rightarrow> 0)))
          else (glyf_table, 0)))"

fun rebuild_loop ::
  "recalc \<Rightarrow> int \<Rightarrow> int \<Rightarrow> string list
    \<Rightarrow> (string, glyph) dict \<times> (string, int \<times> int) dict \<times> nat
    \<Rightarrow> (string, glyph) dict \<times> (string, int \<times> int) dict \<times> nat" where
  "rebuild_loop rb adv_height vert_asc [] st = st"
| "rebuild_loop rb adv_height vert_asc (name # rest) (glyf_table, existing, rebuilt) =
     (if name \<in> keys existing
      then rebuild_loop rb adv_height vert_asc rest (glyf_table, existing, rebuilt)
      else (case compute_tsb rb vert_asc glyf_table name of
              (glyf_table', tsb) \<Rightarrow>
                rebuild_loop rb adv_height vert_asc rest
                  (glyf_table', AList.update name (adv_height, tsb) existing, rebuilt + 1)))"

definition rebuild_vmtx :: "recalc \<Rightarrow> font \<Rightarrow> error + font" where
  "rebuild_vmtx rb f =
     (case vhea f of
        None \<Rightarrow> Inl KeyError
      | Some vh \<Rightarrow>
         (case vmtx f of
            None \<Rightarrow> Inl KeyError
          | Some existing \<Rightarrow>
             (case rebuild_loop rb (advanceHeightMax vh) (vert_ascent vh) (glyphOrder f)
                     (glyf f, existing, 0) of
                (glyf_table', existing', rebuilt) \<Rightarrow>
                  Inr (f\<lparr>glyf := glyf_table', vmtx := Some existing',
                         vhea := Some (vh\<lparr>numberOfVMetrics := length (glyphOrder f)\<rparr>)\<rparr>))))"

section \<open>The table steps of \<open>merge_fonts\<close>\<close>

text \<open>
  \<open>merge_fonts\<close> on the tables of the model, from the two loaded fonts (after the
  units-per-em check): steps 1 and 2, the glyph order, the metrics and, when the base has
  both vertical tables, the vertical metrics. The steps on the \<open>post\<close> and \<open>name\<close>
  tables, the validator (which only logs) and saving are left out: they touch none of the
  tables above.
\<close>

definition merge_tables ::
  "nat \<Rightarrow> (string list \<Rightarrow> string list) \<Rightarrow> recalc \<Rightarrow> font \<Rightarrow> font \<Rightarrow> error + font" where
  "merge_tables d iter rb base meslo =
     (case ensure_cmap_subtables base of
        Inl e \<Rightarrow> Inl e
      | Inr base1 \<Rightarrow>
         (case transplant_glyphs d meslo base1 ''mes_'' of
            Inl e \<Rightarrow> Inl e
          | Inr (meslo', base2, meslo_count) \<Rightarrow>
             (let base3 = fix_glyph_order iter base2;
                  base4 = set_os2_metrics base3 meslo'
              in if vmtx base4 \<noteq> None \<and> vhea base4 \<noteq> None
                 then rebuild_vmtx rb base4 else Inr base4)))"

section \<open>Narrow subtables\<close>

text \<open>
  A narrow subtable has format 4 or 6; \<open>bmp_only\<close> says that it holds no codepoint above
  \<open>0xFFFF\<close>, \<open>range_safe\<close> that every narrow subtable of the font is so.
\<close>

definition narrow :: "subtable \<Rightarrow> bool" where
  "narrow t \<longleftrightarrow> format t = 4 \<or> format t = 6"

definition bmp_only :: "subtable \<Rightarrow> bool" where
  "bmp_only t \<longleftrightarrow> list_all (\<lambda>(k, v). k \<le> 0xFFFF) (cmap t)"

definition range_safe :: "font \<Rightarrow> bool" where
  "range_safe f \<longleftrightarrow> list_all (\<lambda>t. narrow t \<longrightarrow> bmp_only t) (cmap_tables f)"

section \<open>Example fonts\<close>

text \<open>Small containers on which the theorems below are instantiated.\<close>

definition blank_os2 :: os2_table where
  "blank_os2 = \<lparr>sTypoAscender = 0, sTypoDescender = 0, sTypoLineGap = 0, usWinAscent = 0,
     usWinDescent = 0, fsSelection = 0, fsType = 0, sxHeight = 0, sCapHeight = 0,
     ulUnicodeRange1 = 0, ulUnicodeRange2 = 0, ulUnicodeRange3 = 0, ulUnicodeRange4 = 0\<rparr>"

definition blank_font :: font where
  "blank_font = \<lparr>cmap_tables = [], glyf = [], hmtx = [], glyphOrder = [], os2 = blank_os2,
     hhea = \<lparr>ascent = 0, descent = 0, lineGap = 0\<rparr>, vhea = None, vmtx = None\<rparr>"

definition mk_subtable :: "nat \<Rightarrow> nat \<Rightarrow> nat \<Rightarrow> (codepoint, string) dict \<Rightarrow> subtable" where
  "mk_subtable p e fmt m = \<lparr>platformID = p, platEncID = e, format = fmt, language = 0, cmap = m\<rparr>"

definition simple_glyph :: "int \<Rightarrow> glyph" where
  "simple_glyph ymax = \<lparr>numberOfContours = 1, components = [],
     coordinates = [(0, 0), (500, ymax)], yMax = Some ymax\<rparr>"

definition composite_glyph :: "string list \<Rightarrow> glyph" where
  "composite_glyph names = \<lparr>numberOfContours = - 1,
     components = map (\<lambda>n. \<lparr>glyphName = n, x_offset = 0, y_offset = 0\<rparr>) names,
     coordinates = [], yMax = None\<rparr>"

text \<open>
  A reference font for the Metrics Synchronizer whose typographic metrics differ from its
  Windows and header metrics, as those of many fonts do.
\<close>

definition skewed_donor :: font where
  "skewed_donor = blank_font\<lparr>
     os2 := blank_os2\<lparr>sTypoAscender := 1556, sTypoDescender := - 492,
                      usWinAscent := 1901, usWinDescent := 483\<rparr>,
     hhea := \<lparr>ascent = 1901, descent = - 483, lineGap = 0\<rparr>\<rparr>"

text \<open>
  A base after transplantation: two glyphs of its own in the glyph order, two
  transplanted ones in the outline table only.
\<close>

definition grown_font :: font where
  "grown_font = blank_font\<lparr>
     glyf := [(''.notdef'', simple_glyph 0), (''cjk_zhong'', simple_glyph 800),
              (''mes_uni0041'', simple_glyph 700), (''mes_uniE0A0'', simple_glyph 900)],
     glyphOrder := [''.notdef'', ''cjk_zhong'']\<rparr>"

text \<open>
  A base with a narrow Windows subtable only, and a donor with a wide one: a simple glyph
  \<open>A\<close>, a composite \<open>Aacute\<close> of \<open>A\<close> and \<open>acutecomb\<close>, and an icon in a
  supplementary plane. Both map \<open>U+0041\<close>. \<open>base_ensured\<close> is the base after
  \<open>ensure_cmap_subtables\<close>, \<open>base_transplanted\<close> after \<open>transplant_glyphs\<close>,
  \<open>merged_font\<close> after the remaining table steps.
\<close>

definition base_font :: font where
  "base_font = blank_font\<lparr>
     cmap_tables := [mk_subtable 3 1 4 [(0x4E2D, ''cjk_zhong''), (0x41, ''base_A'')]],
     glyf := [(''.notdef'', simple_glyph 0), (''cjk_zhong'', simple_glyph 800),
              (''base_A'', simple_glyph 700)],
     hmtx := [(''.notdef'', (500, 0)), (''cjk_zhong'', (1000, 40)), (''base_A'', (500, 30))],
     glyphOrder := [''.notdef'', ''cjk_zhong'', ''base_A'']\<rparr>"

definition donor_font :: font where
  "donor_font = blank_font\<lparr>
     cmap_tables := [mk_subtable 3 10 12 [(0x41, ''A''), (0xC1, ''Aacute''), (0xF0001, ''icon'')]],
     glyf := [(''A'', simple_glyph 1400), (''acutecomb'', simple_glyph 1800),
              (''Aacute'', composite_glyph [''A'', ''acutecomb'']), (''icon'', simple_glyph 1900)],
     hmtx := [(''A'', (1233, 20)), (''acutecomb'', (0, 300)), (''Aacute'', (1233, 20)),
              (''icon'', (1233, 0))],
     glyphOrder := [''A'', ''acutecomb'', ''Aacute'', ''icon'']\<rparr>"

definition base_ensured :: font where
  "base_ensured = base_font\<lparr>cmap_tables :=
      [mk_subtable 3 1 4 [(0x4E2D, ''cjk_zhong''), (0x41, ''base_A'')],
       mk_subtable 3 10 12 [(0x4E2D, ''cjk_zhong''), (0x41, ''base_A'')]]\<rparr>"

definition base_transplanted :: font where
  "base_transplanted = base_font\<lparr>
     cmap_tables :=
       [mk_subtable 3 1 4 [(0x4E2D, ''cjk_zhong''), (0x41, ''mes_uni0041''),
          (0xC1, ''mes_uni00C1'')],
        mk_subtable 3 10 12 [(0x4E2D, ''cjk_zhong''), (0x41, ''mes_uni0041''),
          (0xC1, ''mes_uni00C1''), (0xF0001, ''mes_u0F0001'')]],
     glyf := [(''.notdef'', simple_glyph 0), (''cjk_zhong'', simple_glyph 800),
          (''base_A'', simple_glyph 700), (''mes_uni0041'', simple_glyph 1400),
          (''_ens_A'', simple_glyph 1400), (''_ens_acutecomb'', simple_glyph 1800),
          (''mes_uni00C1'', composite_glyph [''_ens_A'', ''_ens_acutecomb'']),
          (''mes_u0F0001'', simple_glyph 1900)],
     hmtx := [(''.notdef'', (500, 0)), (''cjk_zhong'', (1000, 40)), (''base_A'', (500, 30)),
          (''mes_uni0041'', (1233, 20)), (''_ens_A'', (1233, 20)),
          (''_ens_acutecomb'', (0, 300)), (''mes_uni00C1'', (1233, 20)),
          (''mes_u0F0001'', (1233, 0))]\<rparr>"

definition merged_font :: font where
  "merged_font = set_os2_metrics (fix_glyph_order remdups base_transplanted) donor_font"



text \<open>
  A donor whose composite \<open>quotedbl\<close> uses the component \<open>quotesingle\<close> twice, and
  the base after that composite has been copied into it; the base after the composite
  \<open>Aacute\<close> of \<open>donor_font\<close> has been copied into it.
\<close>

definition twin_donor :: font where
  "twin_donor = blank_font\<lparr>
     glyf := [(''quotesingle'', simple_glyph 1500),
              (''quotedbl'', composite_glyph [''quotesingle'', ''quotesingle''])],
     hmtx := [(''quotesingle'', (1233, 500)), (''quotedbl'', (1233, 250))]\<rparr>"

definition base_with_quotedbl :: font where
  "base_with_quotedbl = base_font\<lparr>
     glyf := [(''.notdef'', simple_glyph 0), (''cjk_zhong'', simple_glyph 800),
              (''base_A'', simple_glyph 700), (''_ens_quotesingle'', simple_glyph 1500),
              (''mes_uni0022'', composite_glyph [''_ens_quotesingle'', ''_ens_quotesingle''])],
     hmtx := [(''.notdef'', (500, 0)), (''cjk_zhong'', (1000, 40)), (''base_A'', (500, 30)),
              (''_ens_quotesingle'', (1233, 500)), (''mes_uni0022'', (1233, 250))]\<rparr>"


text \<open>
  A donor whose composite \<open>Aacute\<close> refers to a glyph \<open>acutecomb\<close> that its outline
  table lacks; the base after the copy of \<open>Aacute\<close> has failed (the component \<open>A\<close>
  was copied before the failure), and after the whole loop.
\<close>

definition broken_donor :: font where
  "broken_donor = blank_font\<lparr>
     cmap_tables := [mk_subtable 3 10 12 [(0xC1, ''Aacute''), (0x41, ''A'')]],
     glyf := [(''A'', simple_glyph 1400), (''Aacute'', composite_glyph [''A'', ''acutecomb''])],
     hmtx := [(''A'', (1233, 20)), (''Aacute'', (1233, 20))]\<rparr>"

definition base_after_failed_copy :: font where
  "base_after_failed_copy = base_ensured\<lparr>
     glyf := [(''.notdef'', simple_glyph 0), (''cjk_zhong'', simple_glyph 800),
              (''base_A'', simple_glyph 700), (''_ens_A'', simple_glyph 1400)],
     hmtx := [(''.notdef'', (500, 0)), (''cjk_zhong'', (1000, 40)), (''base_A'', (500, 30)),
              (''_ens_A'', (1233, 20))]\<rparr>"

definition base_after_broken :: font where
  "base_after_broken = base_font\<lparr>
     cmap_tables :=
       [mk_subtable 3 1 4 [(0x4E2D, ''cjk_zhong''), (0x41, ''mes_uni0041'')],
        mk_subtable 3 10 12 [(0x4E2D, ''cjk_zhong''), (0x41, ''mes_uni0041'')]],
     glyf := [(''.notdef'', simple_glyph 0), (''cjk_zhong'', simple_glyph 800),
              (''base_A'', simple_glyph 700), (''_ens_A'', simple_glyph 1400),
              (''mes_uni0041'', simple_glyph 1400)],
     hmtx := [(''.notdef'', (500, 0)), (''cjk_zhong'', (1000, 40)), (''base_A'', (500, 30)),
              (''_ens_A'', (1233, 20)), (''mes_uni0041'', (1233, 20))]\<rparr>"

section \<open>Properties of the Cmap Resolver\<close>

lemma first_cmap_None: "first_cmap p ts = None \<longleftrightarrow> (\<forall>t \<in> set ts. \<not> p t)"
  by (induction ts) auto

lemma first_cmap_Some:
  "first_cmap p ts = Some m \<longleftrightarrow> (\<exists>i. first_at p ts i \<and> m = cmap (ts ! i))"
proof (induction ts)
  case Nil
  show ?case by (simp add: first_at_def)
next
  case (Cons t ts)
  show ?case
  proof (cases "p t")
    case True
    have "first_at p (t # ts) i \<longleftrightarrow> i = 0" for i
      using True by (cases i) (auto simp: first_at_def)
    then show ?thesis using True by auto
  next
    case False
    have shift: "first_at p (t # ts) i \<longleftrightarrow> (\<exists>k. i = Suc k \<and> first_at p ts k)" for i
    proof (cases i)
      case 0
      then show ?thesis using False by (simp add: first_at_def)
    next
      case (Suc k)
      have "(\<forall>j < Suc k. \<not> p ((t # ts) ! j)) \<longleftrightarrow> (\<forall>j < k. \<not> p (ts ! j))"
        using False by (auto simp: less_Suc_eq_0_disj)
      then show ?thesis using Suc by (simp add: first_at_def)
    qed
    show ?thesis using False Cons.IH by (auto simp: shift)
  qed
qed

lemma first_at_unique: "first_at p ts i \<Longrightarrow> first_at p ts j \<Longrightarrow> i = j"
  unfolding first_at_def by (meson nat_neq_iff)

lemma first_at_exists: "(\<exists>t \<in> set ts. p t) \<Longrightarrow> \<exists>i. first_at p ts i"
proof -
  assume "\<exists>t \<in> set ts. p t"
  then have "first_cmap p ts \<noteq> None" by (simp add: first_cmap_None)
  then obtain m where "first_cmap p ts = Some m" by blast
  then show ?thesis by (auto simp: first_cmap_Some)
qed

text \<open>
  C6. \<open>get_best_cmap\<close> returns the mapping of the first wide Windows-Unicode subtable
  (platform 3, encoding 10); when there is none, of the first narrow Windows-Unicode
  subtable (platform 3, encoding 1); when there is none either, of the first subtable of
  the Unicode platform (platform 0); and it raises exactly when no subtable matches any of
  the three rules.
\<close>

theorem get_best_cmap_priority:
  "(first_at win_full (cmap_tables f) i \<longrightarrow> get_best_cmap f = Inr (cmap (cmap_tables f ! i)))
   \<and> ((\<forall>t \<in> set (cmap_tables f). \<not> win_full t) \<and> first_at win_bmp (cmap_tables f) i
        \<longrightarrow> get_best_cmap f = Inr (cmap (cmap_tables f ! i)))
   \<and> ((\<forall>t \<in> set (cmap_tables f). \<not> win_full t \<and> \<not> win_bmp t) \<and> first_at uni_platform (cmap_tables f) i
        \<longrightarrow> get_best_cmap f = Inr (cmap (cmap_tables f ! i)))
   \<and> ((\<exists>e. get_best_cmap f = Inl e)
        \<longleftrightarrow> (\<forall>t \<in> set (cmap_tables f). \<not> win_full t \<and> \<not> win_bmp t \<and> \<not> uni_platform t))"
proof (intro conjI impI)
  assume a: "first_at win_full (cmap_tables f) i"
  then have "first_cmap win_full (cmap_tables f) = Some (cmap (cmap_tables f ! i))"
    by (auto simp: first_cmap_Some)
  then show "get_best_cmap f = Inr (cmap (cmap_tables f ! i))"
    by (simp add: get_best_cmap_def)
next
  assume a: "(\<forall>t \<in> set (cmap_tables f). \<not> win_full t) \<and> first_at win_bmp (cmap_tables f) i"
  then have "first_cmap win_full (cmap_tables f) = None"
    by (simp add: first_cmap_None)
  moreover from a have "first_cmap win_bmp (cmap_tables f) = Some (cmap (cmap_tables f ! i))"
    by (auto simp: first_cmap_Some)
  ultimately show "get_best_cmap f = Inr (cmap (cmap_tables f ! i))"
    by (simp add: get_best_cmap_def)
next
  assume a: "(\<forall>t \<in> set (cmap_tables f). \<not> win_full t \<and> \<not> win_bmp t)
      \<and> first_at uni_platform (cmap_tables f) i"
  then have "first_cmap win_full (cmap_tables f) = None"
    and "first_cmap win_bmp (cmap_tables f) = None"
    by (simp_all add: first_cmap_None)
  moreover from a have "first_cmap uni_platform (cmap_tables f) = Some (cmap (cmap_tables f ! i))"
    by (auto simp: first_cmap_Some)
  ultimately show "get_best_cmap f = Inr (cmap (cmap_tables f ! i))"
    by (simp add: get_best_cmap_def)
next
  have "(\<exists>e. get_best_cmap f = Inl e)
      \<longleftrightarrow> first_cmap win_full (cmap_tables f) = None
        \<and> first_cmap win_bmp (cmap_tables f) = None
        \<and> first_cmap uni_platform (cmap_tables f) = None"
    by (simp add: get_best_cmap_def split: option.splits)
  also have "\<dots> \<longleftrightarrow> (\<forall>t \<in> set (cmap_tables f). \<not> win_full t \<and> \<not> win_bmp t \<and> \<not> uni_platform t)"
    unfolding first_cmap_None by blast
  finally show "(\<exists>e. get_best_cmap f = Inl e)
      \<longleftrightarrow> (\<forall>t \<in> set (cmap_tables f). \<not> win_full t \<and> \<not> win_bmp t \<and> \<not> uni_platform t)" .
qed

theorem get_best_cmap_priority_witness:
  "get_best_cmap (blank_font\<lparr>cmap_tables :=
       [mk_subtable 3 1 4 [(65, ''a'')], mk_subtable 3 10 12 [(65, ''b'')],
        mk_subtable 3 10 12 [(65, ''c'')]]\<rparr>) = Inr [(65, ''b'')]
   \<and> get_best_cmap (blank_font\<lparr>cmap_tables :=
       [mk_subtable 0 3 4 [(65, ''a'')], mk_subtable 3 1 4 [(65, ''b'')]]\<rparr>) = Inr [(65, ''b'')]
   \<and> get_best_cmap (blank_font\<lparr>cmap_tables :=
       [mk_subtable 1 0 6 [(65, ''a'')], mk_subtable 0 3 4 [(65, ''b'')]]\<rparr>) = Inr [(65, ''b'')]
   \<and> (\<exists>e. get_best_cmap (blank_font\<lparr>cmap_tables := [mk_subtable 1 0 6 [(65, ''a'')]]\<rparr>) = Inl e)"
  using get_best_cmap_priority [of "blank_font\<lparr>cmap_tables :=
       [mk_subtable 3 1 4 [(65, ''a'')], mk_subtable 3 10 12 [(65, ''b'')],
        mk_subtable 3 10 12 [(65, ''c'')]]\<rparr>" 1]
    get_best_cmap_priority [of "blank_font\<lparr>cmap_tables :=
       [mk_subtable 0 3 4 [(65, ''a'')], mk_subtable 3 1 4 [(65, ''b'')]]\<rparr>" 1]
    get_best_cmap_priority [of "blank_font\<lparr>cmap_tables :=
       [mk_subtable 1 0 6 [(65, ''a'')], mk_subtable 0 3 4 [(65, ''b'')]]\<rparr>" 1]
    get_best_cmap_priority [of "blank_font\<lparr>cmap_tables := [mk_subtable 1 0 6 [(65, ''a'')]]\<rparr>" 0]
  by (simp add: first_at_def win_full_def win_bmp_def uni_platform_def mk_subtable_def
      blank_font_def)

section \<open>Glyph names of transplanted codepoints\<close>

lemma hex_digits_all:
  "list_all (\<lambda>d. digit_val (hex_digit d) = d \<and> hex_digit d \<in> set ''0123456789ABCDEF'') [0..<16]"
  by code_simp

lemma digit_val_hex_digit: "d < 16 \<Longrightarrow> digit_val (hex_digit d) = d"
  using hex_digits_all unfolding list_all_iff by simp

lemma hex_digit_in: "d < 16 \<Longrightarrow> hex_digit d \<in> set ''0123456789ABCDEF''"
  using hex_digits_all unfolding list_all_iff by simp

lemma hex_value_append: "hex_value (s @ [c]) = 16 * hex_value s + digit_val c"
  by (simp add: hex_value_def)

lemma hex_value_hex_upper: "hex_value (hex_upper n) = n"
proof (induction n rule: hex_upper.induct)
  case (1 n)
  show ?case
  proof (cases "n < 16")
    case True
    then show ?thesis
      by (simp add: hex_upper.simps [of n] hex_value_def digit_val_hex_digit)
  next
    case False
    then have "hex_value (hex_upper n) = 16 * (n div 16) + n mod 16"
      using 1 by (simp add: hex_upper.simps [of n] hex_value_append digit_val_hex_digit)
    then show ?thesis by simp
  qed
qed

lemma hex_value_zeros: "hex_value (replicate k CHR ''0'' @ s) = hex_value s"
proof -
  have z: "digit_val CHR ''0'' = 0" by (simp add: digit_val_def)
  have "foldl (\<lambda>acc c. 16 * acc + digit_val c) 0 (replicate k CHR ''0'') = 0"
    by (induction k) (simp_all add: z)
  then show ?thesis by (simp add: hex_value_def)
qed

lemma hex_value_format_X: "hex_value (format_X w n) = n"
  by (simp add: format_X_def hex_value_zeros hex_value_hex_upper)

lemma set_hex_upper: "set (hex_upper n) \<subseteq> set ''0123456789ABCDEF''"
proof (induction n rule: hex_upper.induct)
  case (1 n)
  show ?case
  proof (cases "n < 16")
    case True
    then show ?thesis using hex_digit_in [of n] by (simp add: hex_upper.simps [of n])
  next
    case False
    then show ?thesis using 1 hex_digit_in [of "n mod 16"]
      by (simp add: hex_upper.simps [of n])
  qed
qed

lemma set_format_X: "set (format_X w n) \<subseteq> set ''0123456789ABCDEF''"
  using set_hex_upper [of n] by (auto simp: format_X_def)

lemma hex_upper_nonempty: "hex_upper n \<noteq> []"
  by (simp add: hex_upper.simps [of n])

lemma format_X_not_n: "format_X w n \<noteq> CHR ''n'' # s"
proof
  assume "format_X w n = CHR ''n'' # s"
  then have "CHR ''n'' \<in> set (format_X w n)" by simp
  then show False using set_format_X [of w n] by auto
qed

lemma length_hex_upper: "0 < k \<Longrightarrow> n < 16 ^ k \<Longrightarrow> length (hex_upper n) \<le> k"
proof (induction n arbitrary: k rule: hex_upper.induct)
  case (1 n)
  show ?case
  proof (cases "n < 16")
    case True
    then show ?thesis using 1(2) by (simp add: hex_upper.simps [of n])
  next
    case False
    obtain j where k: "k = Suc j" using 1(2) by (cases k) auto
    have "0 < j" using False 1(3) k by (cases j) auto
    moreover have "n div 16 < 16 ^ j" using 1(3) k
      by (simp add: less_mult_imp_div_less mult.commute)
    ultimately have "length (hex_upper (n div 16)) \<le> j" using 1(1) [OF False] by blast
    then show ?thesis using False k by (simp add: hex_upper.simps [of n])
  qed
qed

lemma length_format_X: "0 < w \<Longrightarrow> n < 16 ^ w \<Longrightarrow> length (format_X w n) = w"
  using length_hex_upper [of w n] by (simp add: format_X_def)


text \<open>
  C10. For a fixed prefix, two different codepoints of \<open>[0, 0x10FFFF]\<close> get different
  glyph names. A codepoint up to \<open>0xFFFF\<close> is named prefix, \<open>uni\<close>, four
  upper-case hexadecimal digits; a codepoint above it is named prefix, \<open>u\<close>, six
  such digits; the two forms never coincide, the second character after the prefix being
  \<open>n\<close> in one and a digit in the other.
\<close>

theorem glyph_names_distinct:
  assumes "a \<le> 0x10FFFF" "b \<le> 0x10FFFF" "a \<noteq> b"
  shows "glyph_name_for_codepoint a prefix \<noteq> glyph_name_for_codepoint b prefix
    \<and> (a \<le> 0xFFFF \<longrightarrow> (\<exists>s. glyph_name_for_codepoint a prefix = prefix @ ''uni'' @ s \<and> length s = 4
          \<and> set s \<subseteq> set ''0123456789ABCDEF''))
    \<and> (0xFFFF < a \<longrightarrow> (\<exists>s. glyph_name_for_codepoint a prefix = prefix @ ''u'' @ s \<and> length s = 6
          \<and> set s \<subseteq> set ''0123456789ABCDEF''))"
proof (intro conjI impI)
  show "glyph_name_for_codepoint a prefix \<noteq> glyph_name_for_codepoint b prefix"
  proof
    assume eq: "glyph_name_for_codepoint a prefix = glyph_name_for_codepoint b prefix"
    consider "a \<le> 0xFFFF" "b \<le> 0xFFFF" | "a \<le> 0xFFFF" "\<not> b \<le> 0xFFFF"
      | "\<not> a \<le> 0xFFFF" "b \<le> 0xFFFF" | "\<not> a \<le> 0xFFFF" "\<not> b \<le> 0xFFFF"
      by blast
    then show False
    proof cases
      case 1
      then have "format_X 4 a = format_X 4 b"
        using eq by (simp add: glyph_name_for_codepoint_def)
      then have "hex_value (format_X 4 a) = hex_value (format_X 4 b)" by simp
      then show False using assms(3) by (simp add: hex_value_format_X)
    next
      case 2
      then have "format_X 6 b = CHR ''n'' # CHR ''i'' # format_X 4 a"
        using eq by (simp add: glyph_name_for_codepoint_def)
      then show False using format_X_not_n by blast
    next
      case 3
      then have "format_X 6 a = CHR ''n'' # CHR ''i'' # format_X 4 b"
        using eq by (simp add: glyph_name_for_codepoint_def)
      then show False using format_X_not_n by blast
    next
      case 4
      then have "format_X 6 a = format_X 6 b"
        using eq by (simp add: glyph_name_for_codepoint_def)
      then have "hex_value (format_X 6 a) = hex_value (format_X 6 b)" by simp
      then show False using assms(3) by (simp add: hex_value_format_X)
    qed
  qed
next
  assume "a \<le> 0xFFFF"
  then have "length (format_X 4 a) = 4" by (intro length_format_X) simp_all
  then show "\<exists>s. glyph_name_for_codepoint a prefix = prefix @ ''uni'' @ s \<and> length s = 4
      \<and> set s \<subseteq> set ''0123456789ABCDEF''"
    using \<open>a \<le> 0xFFFF\<close> set_format_X [of 4 a] by (simp add: glyph_name_for_codepoint_def)
next
  assume "0xFFFF < a"
  have "length (format_X 6 a) = 6" using assms(1) by (intro length_format_X) simp_all
  then show "\<exists>s. glyph_name_for_codepoint a prefix = prefix @ ''u'' @ s \<and> length s = 6
      \<and> set s \<subseteq> set ''0123456789ABCDEF''"
    using \<open>0xFFFF < a\<close> set_format_X [of 6 a] by (simp add: glyph_name_for_codepoint_def)
qed



lemma replicate_numeral_unfold: "replicate (numeral k) v = v # replicate (pred_numeral k) v"
  by (simp add: numeral_eq_Suc)

lemmas name_eval = glyph_name_for_codepoint_def format_X_def hex_upper.simps hex_digit_def
  replicate_numeral_unfold

theorem glyph_names_distinct_witness:
  "glyph_name_for_codepoint 0xE0A0 ''mes_'' \<noteq> glyph_name_for_codepoint 0xF0001 ''mes_''
   \<and> glyph_name_for_codepoint 0xE0A0 ''mes_'' = ''mes_uniE0A0''
   \<and> glyph_name_for_codepoint 0xF0001 ''mes_'' = ''mes_u0F0001''"
proof -
  have a: "glyph_name_for_codepoint 0xE0A0 ''mes_'' = ''mes_uniE0A0''"
    by (simp add: name_eval)
  have b: "glyph_name_for_codepoint 0xF0001 ''mes_'' = ''mes_u0F0001''"
    by (simp add: name_eval)
  have "glyph_name_for_codepoint 0xE0A0 ''mes_'' \<noteq> glyph_name_for_codepoint 0xF0001 ''mes_''"
    using glyph_names_distinct [of "0xE0A0" "0xF0001" "''mes_''"] by linarith
  with a b show ?thesis by blast
qed

section \<open>Properties of the Metrics Synchronizer\<close>

text \<open>
  What \<open>set_os2_metrics\<close> does to the six metrics of the consistency rule: each is
  copied from the reference font, and none is compared with another.
\<close>

lemma set_os2_metrics_copies_reference:
  "ascent (hhea (set_os2_metrics f meslo_ref)) = ascent (hhea meslo_ref)
   \<and> descent (hhea (set_os2_metrics f meslo_ref)) = descent (hhea meslo_ref)
   \<and> usWinAscent (os2 (set_os2_metrics f meslo_ref)) = usWinAscent (os2 meslo_ref)
   \<and> usWinDescent (os2 (set_os2_metrics f meslo_ref)) = usWinDescent (os2 meslo_ref)
   \<and> sTypoAscender (os2 (set_os2_metrics f meslo_ref)) = sTypoAscender (os2 meslo_ref)
   \<and> sTypoDescender (os2 (set_os2_metrics f meslo_ref)) = sTypoDescender (os2 meslo_ref)"
  by (simp add: set_os2_metrics_def Let_def)

text \<open>
  C2. The docstring of \<open>set_os2_metrics\<close> gives the rule as a key rule (the three
  ascents equal, the three descents equal up to the sign of the Windows one, "these three
  must be consistent"), and the source comments "hhea must match for cross-platform
  consistency". The code does not establish it: with a reference font whose typographic
  metrics differ from its Windows and header metrics, the base comes out with header and
  Windows ascent 1901 and typographic ascender 1556, header descent -483 and typographic
  descender -492, and the rule does not hold.
\<close>

theorem set_os2_metrics_not_consistent:
  "ascent (hhea (set_os2_metrics blank_font skewed_donor)) = 1901
   \<and> usWinAscent (os2 (set_os2_metrics blank_font skewed_donor)) = 1901
   \<and> sTypoAscender (os2 (set_os2_metrics blank_font skewed_donor)) = 1556
   \<and> descent (hhea (set_os2_metrics blank_font skewed_donor)) = - 483
   \<and> usWinDescent (os2 (set_os2_metrics blank_font skewed_donor)) = 483
   \<and> sTypoDescender (os2 (set_os2_metrics blank_font skewed_donor)) = - 492
   \<and> \<not> metrics_consistent (set_os2_metrics blank_font skewed_donor)"
  by (simp add: metrics_consistent_def set_os2_metrics_def skewed_donor_def blank_font_def
      blank_os2_def)

section \<open>Properties of the Glyph Order Reconciler\<close>


lemma count_list_distinct_mem: "distinct xs \<Longrightarrow> n \<in> set xs \<Longrightarrow> count_list xs n = 1"
  by (induction xs) auto

lemma count_list_not_mem: "n \<notin> set xs \<Longrightarrow> count_list xs n = 0"
  by (induction xs) auto

lemma keys_map_fst: "set (map fst d) = keys d"
  by (simp add: keys_def)

text \<open>
  C8. Whatever order the set of outline-table names is iterated in,
  \<open>fix_glyph_order\<close> leaves a glyph order that is the previous order followed by
  the names of the outline table that the previous order lacks, each once. No name of the
  previous order moves, is dropped or gains an occurrence; so when the previous order
  lists no name twice (names are unique in a container), every outline-table name occurs
  in the new order exactly once.
\<close>

theorem fix_glyph_order_appends:
  assumes "set_iteration iter (map fst (glyf f))"
  defines "added \<equiv> filter (\<lambda>g. g \<notin> set (glyphOrder f)) (iter (map fst (glyf f)))"
  shows "glyphOrder (fix_glyph_order iter f) = glyphOrder f @ added
    \<and> distinct added
    \<and> set added = keys (glyf f) - set (glyphOrder f)
    \<and> (\<forall>n \<in> keys (glyf f). count_list (glyphOrder (fix_glyph_order iter f)) n
          = (if n \<in> set (glyphOrder f) then count_list (glyphOrder f) n else 1))
    \<and> (distinct (glyphOrder f) \<longrightarrow>
          (\<forall>n \<in> keys (glyf f). count_list (glyphOrder (fix_glyph_order iter f)) n = 1))"
proof -
  have ord: "glyphOrder (fix_glyph_order iter f) = glyphOrder f @ added"
    by (simp add: fix_glyph_order_def Let_def added_def)
  have dist: "distinct added"
    using assms(1) by (simp add: added_def set_iteration_def)
  have mem: "set added = keys (glyf f) - set (glyphOrder f)"
    using assms(1) by (auto simp: added_def set_iteration_def keys_def)
  have cnt: "count_list (glyphOrder f @ added) n
      = (if n \<in> set (glyphOrder f) then count_list (glyphOrder f) n else 1)"
    if "n \<in> keys (glyf f)" for n
  proof (cases "n \<in> set (glyphOrder f)")
    case True
    then have "n \<notin> set added" by (simp add: mem)
    then show ?thesis using True by (simp add: count_list_not_mem)
  next
    case False
    then have "n \<in> set added" using that by (simp add: mem)
    then show ?thesis using False dist
      by (simp add: count_list_not_mem count_list_distinct_mem)
  qed
  have once: "count_list (glyphOrder f @ added) n = 1"
    if "distinct (glyphOrder f)" "n \<in> keys (glyf f)" for n
    using cnt [OF that(2)] that(1) by (simp add: count_list_distinct_mem)
  show ?thesis using ord dist mem cnt once by simp
qed

theorem fix_glyph_order_appends_witness:
  "set_iteration rev (map fst (glyf grown_font))
   \<and> distinct (glyphOrder grown_font)
   \<and> glyphOrder (fix_glyph_order rev grown_font)
       = [''.notdef'', ''cjk_zhong'', ''mes_uniE0A0'', ''mes_uni0041'']
   \<and> count_list (glyphOrder (fix_glyph_order rev grown_font)) ''mes_uni0041'' = 1"
proof -
  have it: "set_iteration rev (map fst (glyf grown_font))"
    by (auto simp: set_iteration_def grown_font_def blank_font_def)
  have d: "distinct (glyphOrder grown_font)"
    by (simp add: grown_font_def blank_font_def)
  have k: "''mes_uni0041'' \<in> keys (glyf grown_font)"
    by (simp add: keys_def grown_font_def blank_font_def)
  have o: "glyphOrder grown_font @
      filter (\<lambda>g. g \<notin> set (glyphOrder grown_font)) (rev (map fst (glyf grown_font)))
      = [''.notdef'', ''cjk_zhong'', ''mes_uniE0A0'', ''mes_uni0041'']"
    by (simp add: grown_font_def blank_font_def)
  show ?thesis
    using fix_glyph_order_appends [OF it] it d k o by simp
qed

section \<open>Properties of \<open>copy_glyph\<close>\<close>

text \<open>
  A relation between the base before and after that is reflexive, transitive and closed
  under the two writes of \<open>copy_glyph\<close> (made under a name the outline table lacked
  when the call began) holds across every call, whether it returns or raises; and the
  donor comes back as it went in.
\<close>


lemma copy_preserves:
  assumes rf: "\<And>f. R f f"
    and tr: "\<And>f f' f''. R f f' \<Longrightarrow> R f' f'' \<Longrightarrow> R f f''"
    and wg: "\<And>f f' b g. b \<notin> keys (glyf f) \<Longrightarrow> R f f'
               \<Longrightarrow> R f (f'\<lparr>glyf := AList.update b g (glyf f')\<rparr>)"
    and wh: "\<And>f f' b m. b \<notin> keys (glyf f) \<Longrightarrow> R f f'
               \<Longrightarrow> R f (f'\<lparr>hmtx := AList.update b m (hmtx f')\<rparr>)"
  shows "fst (outcome_state (copy_glyph d src dst a b)) = src
           \<and> R dst (snd (outcome_state (copy_glyph d src dst a b)))"
    and "fst (outcome_state (copy_components d src dst cs)) = src
           \<and> R dst (fst (snd (outcome_state (copy_components d src dst cs))))"
proof (induction d src dst a b and d src dst cs rule: copy_glyph_copy_components.induct)
  case (1 src dst src_name dst_name)
  show ?case by (simp add: rf)
next
  case (2 d src dst src_name dst_name)
  show ?case
  proof (cases "dst_name \<in> keys (glyf dst)")
    case True
    then show ?thesis by (simp add: rf)
  next
    case False
    show ?thesis
    proof (cases "map_of (glyf src) src_name")
      case None
      then show ?thesis using False by (simp add: rf)
    next
      case (Some g)
      have fin: "fst (outcome_state (copy_glyph (Suc d) src dst src_name dst_name)) = src
           \<and> R dst (snd (outcome_state (copy_glyph (Suc d) src dst src_name dst_name)))"
        if loop: "(if components g \<noteq> [] then copy_components d src dst (components (deepcopy g))
                   else Returned (src, dst, components g)) = r"
          and st: "outcome_state r = (src, d', cs')" and R: "R dst d'" for r d' cs'
      proof (cases r)
        case (Raised e x)
        then show ?thesis using False Some loop st R by simp
      next
        case (Returned x)
        let ?d1 = "d'\<lparr>glyf := AList.update dst_name (deepcopy (g\<lparr>components := cs'\<rparr>)) (glyf d')\<rparr>"
        have R1: "R dst ?d1" by (rule wg [OF False R])
        show ?thesis
        proof (cases "map_of (hmtx src) src_name")
          case None
          then show ?thesis using False Some loop st Returned R1 by (simp add: Let_def)
        next
          case (Some m)
          have "R dst (?d1\<lparr>hmtx := AList.update dst_name (deepcopy m) (hmtx ?d1)\<rparr>)"
            by (rule wh [OF False R1])
          then show ?thesis using False \<open>map_of (glyf src) src_name = Some g\<close> loop st Returned Some
            by (simp add: Let_def)
        qed
      qed
      show ?thesis
      proof (cases "components g = []")
        case True
        show ?thesis by (rule fin [of "Returned (src, dst, components g)" dst "components g"])
            (simp_all add: True rf)
      next
        case ne: False
        note ih = 2 [OF False Some ne]
        obtain s' d' cs' where st:
          "outcome_state (copy_components d src dst (components (deepcopy g))) = (s', d', cs')"
          using prod_cases3 by blast
        have "s' = src" "R dst d'" using ih st by simp_all
        then show ?thesis
          using fin [of "copy_components d src dst (components (deepcopy g))" d' cs'] ne st
          by simp
      qed
    qed
  qed
next
  case (3 d src dst)
  show ?case by (simp add: rf)
next
  case (4 d src dst c cs)
  show ?case
  proof (cases "copy_glyph d src dst (glyphName c) (ens_name (glyphName c))")
    case (Returned st)
    obtain s1 d1 where st: "st = (s1, d1)" by (cases st) auto
    have h1: "s1 = src" "R dst d1" using 4(1) Returned st by simp_all
    note ih = 4(2) [OF Returned st [symmetric]]
    show ?thesis
    proof (cases "copy_components d s1 d1 cs")
      case r2: (Returned st2)
      obtain s2 d2 cs2 where st2: "st2 = (s2, d2, cs2)" by (cases st2) auto
      show ?thesis using ih h1 Returned st r2 st2
        by (auto intro: tr)
    next
      case r2: (Raised e st2)
      obtain s2 d2 cs2 where st2: "st2 = (s2, d2, cs2)" by (cases st2) auto
      show ?thesis using ih h1 Returned st r2 st2
        by (auto intro: tr)
    qed
  next
    case (Raised e st)
    obtain s1 d1 where st: "st = (s1, d1)" by (cases st) auto
    show ?thesis using 4(1) Raised st by simp
  qed
qed

lemma keys_update: "keys (AList.update k v d) = insert k (keys d)"
  by (simp add: keys_def dom_update)

lemma keys_map_of: "k \<in> keys d \<longleftrightarrow> map_of d k \<noteq> None"
  by (simp add: keys_def map_of_eq_None_iff)

lemma copy_glyph_frame:
  "fst (outcome_state (copy_glyph d src dst a b)) = src"
  "outlines_only dst (snd (outcome_state (copy_glyph d src dst a b)))"
proof -
  have "fst (outcome_state (copy_glyph d src dst a b)) = src
           \<and> outlines_only dst (snd (outcome_state (copy_glyph d src dst a b)))"
  proof (rule copy_preserves(1))
    show "outlines_only f f" for f by (simp add: outlines_only_def)
    show "outlines_only f f' \<Longrightarrow> outlines_only f' f'' \<Longrightarrow> outlines_only f f''" for f f' f''
      unfolding outlines_only_def
      by (metis font.surjective font.update_convs(2) font.update_convs(3))
    show "outlines_only f (f'\<lparr>glyf := AList.update b g (glyf f')\<rparr>)"
      if "outlines_only f f'" for f f' b g
      using that by (simp add: outlines_only_def)
    show "outlines_only f (f'\<lparr>hmtx := AList.update b m (hmtx f')\<rparr>)"
      if "outlines_only f f'" for f f' b m
      using that by (simp add: outlines_only_def)
  qed
  then show "fst (outcome_state (copy_glyph d src dst a b)) = src"
    "outlines_only dst (snd (outcome_state (copy_glyph d src dst a b)))" by simp_all
qed

lemma kept_keys: "kept f f' \<Longrightarrow> keys (glyf f) \<subseteq> keys (glyf f')"
  by (auto simp: kept_def keys_map_of)

lemma copy_glyph_kept: "kept dst (snd (outcome_state (copy_glyph d src dst a b)))"
proof -
  have "fst (outcome_state (copy_glyph d src dst a b)) = src
           \<and> kept dst (snd (outcome_state (copy_glyph d src dst a b)))"
  proof (rule copy_preserves(1))
    show "kept f f" for f by (simp add: kept_def)
    show "kept f f' \<Longrightarrow> kept f' f'' \<Longrightarrow> kept f f''" for f f' f''
      using kept_keys [of f f'] by (auto simp: kept_def)
    show "kept f (f'\<lparr>glyf := AList.update b g (glyf f')\<rparr>)"
      if "b \<notin> keys (glyf f)" "kept f f'" for f f' b g
      using that by (auto simp: kept_def update_conv')
    show "kept f (f'\<lparr>hmtx := AList.update b m (hmtx f')\<rparr>)"
      if "b \<notin> keys (glyf f)" "kept f f'" for f f' b m
      using that by (auto simp: kept_def update_conv')
  qed
  then show ?thesis by simp
qed

lemma copy_glyph_distinct:
  "distinct (map fst (glyf dst))
    \<Longrightarrow> distinct (map fst (glyf (snd (outcome_state (copy_glyph d src dst a b)))))"
proof -
  let ?R = "\<lambda>f f'. distinct (map fst (glyf f)) \<longrightarrow> distinct (map fst (glyf f'))"
  have "fst (outcome_state (copy_glyph d src dst a b)) = src
           \<and> ?R dst (snd (outcome_state (copy_glyph d src dst a b)))"
    by (rule copy_preserves(1) [where R = ?R]) (simp_all add: distinct_update)
  then show "distinct (map fst (glyf dst))
    \<Longrightarrow> distinct (map fst (glyf (snd (outcome_state (copy_glyph d src dst a b)))))" by simp
qed

section \<open>Evaluating the example merge\<close>

lemmas font_eval = base_font_def donor_font_def base_ensured_def base_transplanted_def
  blank_font_def blank_os2_def mk_subtable_def simple_glyph_def composite_glyph_def

lemmas cmap_eval = get_best_cmap_def win_full_def win_bmp_def uni_platform_def
  ensure_cmap_subtables_def update_cmap_def update_subtable_def

lemmas copy_eval = keys_def deepcopy_def ens_name_def Let_def

lemma ensure_base: "ensure_cmap_subtables base_font = Inr base_ensured"
  by (simp add: font_eval cmap_eval)

lemma transplant_example:
  "transplant_glyphs (Suc (Suc 0)) donor_font base_ensured ''mes_''
     = Inr (donor_font, base_transplanted, 3)"
  by (simp add: transplant_glyphs_def font_eval cmap_eval copy_eval name_eval)

lemma merge_example:
  "merge_tables (Suc (Suc 0)) remdups (\<lambda>t g. Inr g) base_font donor_font = Inr merged_font"
proof -
  have "vmtx merged_font = None"
    by (simp add: merged_font_def set_os2_metrics_def fix_glyph_order_def Let_def font_eval)
  then show ?thesis
    by (simp add: merge_tables_def ensure_base transplant_example merged_font_def Let_def)
qed

section \<open>Range safety of the narrow subtables\<close>


lemma list_all_update:
  "P (k, v) \<Longrightarrow> list_all P d \<Longrightarrow> list_all P (AList.update k v d)"
  by (induction d) auto

lemma update_subtable_narrow [simp]: "narrow (update_subtable cp n t) = narrow t"
  by (simp add: update_subtable_def narrow_def Let_def)

lemma update_subtable_supplementary:
  "0xFFFF < cp \<Longrightarrow> narrow t \<Longrightarrow> update_subtable cp n t = t"
  by (auto simp: update_subtable_def narrow_def Let_def)

lemma update_subtable_safe:
  "narrow t \<longrightarrow> bmp_only t \<Longrightarrow> narrow (update_subtable cp n t) \<longrightarrow> bmp_only (update_subtable cp n t)"
  by (auto simp: update_subtable_def narrow_def bmp_only_def Let_def intro: list_all_update)

lemma update_cmap_safe: "range_safe f \<Longrightarrow> range_safe (update_cmap f cp n)"
  unfolding range_safe_def update_cmap_def
  using update_subtable_safe [of _ cp n] by (simp add: list_all_iff)

lemma update_cmap_narrow_unchanged:
  "0xFFFF < cp \<Longrightarrow> filter narrow (cmap_tables (update_cmap f cp n)) = filter narrow (cmap_tables f)"
proof -
  assume cp: "0xFFFF < cp"
  have "filter narrow (map (update_subtable cp n) ts) = filter narrow ts" for ts
    by (induction ts) (auto simp: update_subtable_supplementary [OF cp])
  then show ?thesis by (simp add: update_cmap_def)
qed

lemma outlines_only_cmap: "outlines_only f f' \<Longrightarrow> cmap_tables f' = cmap_tables f"
  unfolding outlines_only_def by (metis font.select_convs(1) font.surjective font.update_convs(2,3))

lemma copy_glyph_cmap_tables:
  "cmap_tables (snd (outcome_state (copy_glyph d src dst a b))) = cmap_tables dst"
  by (rule outlines_only_cmap [OF copy_glyph_frame(2)])

lemma copy_glyph_safe:
  "range_safe dst \<Longrightarrow> range_safe (snd (outcome_state (copy_glyph d src dst a b)))"
  by (simp add: range_safe_def copy_glyph_cmap_tables)

lemma transplant_loop_safe:
  "range_safe dst \<Longrightarrow> range_safe (fst (snd (transplant_loop d prefix es (src, dst, n))))"
proof (induction es arbitrary: src dst n)
  case Nil
  then show ?case by simp
next
  case (Cons e es)
  obtain cp gn where e: "e = (cp, gn)" by (cases e) auto
  show ?case
  proof (cases "copy_glyph d src dst gn (glyph_name_for_codepoint cp prefix)")
    case (Returned st)
    obtain s' d' where st: "st = (s', d')" by (cases st) auto
    have "range_safe d'" using copy_glyph_safe [OF Cons.prems, of d src gn "glyph_name_for_codepoint cp prefix"]
        Returned st by simp
    then have "range_safe (update_cmap d' cp (glyph_name_for_codepoint cp prefix))"
      by (rule update_cmap_safe)
    then show ?thesis using Cons.IH e Returned st by simp
  next
    case (Raised err st)
    obtain s' d' where st: "st = (s', d')" by (cases st) auto
    have "range_safe d'" using copy_glyph_safe [OF Cons.prems, of d src gn "glyph_name_for_codepoint cp prefix"]
        Raised st by simp
    then show ?thesis using Cons.IH e Raised st by simp
  qed
qed

lemma ensure_appends:
  "ensure_cmap_subtables f = Inr f' \<Longrightarrow>
     \<exists>new. cmap_tables f' = cmap_tables f @ new \<and> list_all (\<lambda>t. narrow t \<longrightarrow> bmp_only t) new"
  by (auto simp: ensure_cmap_subtables_def Let_def narrow_def bmp_only_def list_all_iff
      split: sum.splits if_splits)

lemma ensure_safe: "range_safe f \<Longrightarrow> ensure_cmap_subtables f = Inr f' \<Longrightarrow> range_safe f'"
  using ensure_appends [of f f'] by (auto simp: range_safe_def)

lemma transplant_glyphs_safe:
  "range_safe dst \<Longrightarrow> transplant_glyphs d src dst prefix = Inr (src', dst', n) \<Longrightarrow> range_safe dst'"
proof -
  assume safe: "range_safe dst" and tg: "transplant_glyphs d src dst prefix = Inr (src', dst', n)"
  from tg obtain es where "transplant_loop d prefix es (src, dst, 0) = (src', dst', n)"
    by (auto simp: transplant_glyphs_def split: sum.splits)
  then show ?thesis using transplant_loop_safe [OF safe, of d prefix es src 0] by simp
qed

lemma fix_glyph_order_cmap [simp]: "cmap_tables (fix_glyph_order iter f) = cmap_tables f"
  by (simp add: fix_glyph_order_def Let_def)

lemma set_os2_metrics_cmap [simp]: "cmap_tables (set_os2_metrics f r) = cmap_tables f"
  by (simp add: set_os2_metrics_def Let_def)

lemma rebuild_vmtx_cmap: "rebuild_vmtx rb f = Inr f' \<Longrightarrow> cmap_tables f' = cmap_tables f"
  by (auto simp: rebuild_vmtx_def split: option.splits prod.splits)

lemma merge_tables_safe:
  assumes "range_safe base" "merge_tables d iter rb base meslo = Inr out"
  shows "range_safe out"
proof -
  obtain base1 where b1: "ensure_cmap_subtables base = Inr base1"
    using assms(2) by (auto simp: merge_tables_def split: sum.splits)
  obtain meslo' base2 cnt where b2: "transplant_glyphs d meslo base1 ''mes_'' = Inr (meslo', base2, cnt)"
    using assms(2) b1 by (auto simp: merge_tables_def split: sum.splits)
  have s2: "range_safe base2"
    using transplant_glyphs_safe [OF ensure_safe [OF assms(1) b1] b2] .
  let ?b4 = "set_os2_metrics (fix_glyph_order iter base2) meslo'"
  have s4: "range_safe ?b4" using s2 by (simp add: range_safe_def)
  from assms(2) b1 b2 have "out = ?b4 \<or> rebuild_vmtx rb ?b4 = Inr out"
    by (auto simp: merge_tables_def Let_def split: if_splits)
  then show ?thesis
  proof
    assume "out = ?b4" then show ?thesis using s4 by simp
  next
    assume "rebuild_vmtx rb ?b4 = Inr out"
    from rebuild_vmtx_cmap [OF this] show ?thesis using s4 by (simp add: range_safe_def)
  qed
qed

text \<open>
  C3. \<open>update_cmap\<close> with a codepoint above \<open>0xFFFF\<close> leaves every narrow
  (format 4 or 6) subtable as it was; the subtables \<open>ensure_cmap_subtables\<close> appends
  hold, when narrow, only codepoints up to \<open>0xFFFF\<close>; so a base whose narrow
  subtables hold no supplementary codepoint still has none after \<open>update_cmap\<close>,
  after the synthesizer and the transplant, and after the whole merge.
\<close>

theorem range_safety:
  "(0xFFFF < cp \<longrightarrow>
      filter narrow (cmap_tables (update_cmap f cp name)) = filter narrow (cmap_tables f))
   \<and> (ensure_cmap_subtables f = Inr f1 \<longrightarrow>
        (\<exists>new. cmap_tables f1 = cmap_tables f @ new
           \<and> list_all (\<lambda>t. narrow t \<longrightarrow> bmp_only t) new))
   \<and> (range_safe f \<longrightarrow> range_safe (update_cmap f cp name))
   \<and> (range_safe f \<and> ensure_cmap_subtables f = Inr f1
        \<and> transplant_glyphs d donor f1 prefix = Inr (donor', f2, n) \<longrightarrow> range_safe f2)
   \<and> (range_safe f \<and> merge_tables d iter rb f donor = Inr out \<longrightarrow> range_safe out)"
  using update_cmap_narrow_unchanged [of cp f name] ensure_appends [of f f1]
    update_cmap_safe [of f cp name] ensure_safe [of f f1]
    transplant_glyphs_safe [of f1 d donor prefix donor' f2 n]
    merge_tables_safe [of f d iter rb donor out]
  by blast


theorem range_safety_witness:
  "range_safe base_font
   \<and> filter narrow (cmap_tables (update_cmap base_font 0xF0001 ''mes_u0F0001''))
       = filter narrow (cmap_tables base_font)
   \<and> ensure_cmap_subtables base_font = Inr base_ensured
   \<and> transplant_glyphs (Suc (Suc 0)) donor_font base_ensured ''mes_''
       = Inr (donor_font, base_transplanted, 3)
   \<and> range_safe base_transplanted
   \<and> merge_tables (Suc (Suc 0)) remdups (\<lambda>t g. Inr g) base_font donor_font = Inr merged_font
   \<and> range_safe merged_font"
proof -
  have s: "range_safe base_font"
    by (simp add: range_safe_def narrow_def bmp_only_def font_eval)
  have c: "(0xFFFF::nat) < 0xF0001" by simp
  show ?thesis
    using s c ensure_base transplant_example merge_example
      range_safety [where cp = "0xF0001" and f = base_font and name = "''mes_u0F0001''"
        and ?f1.0 = base_ensured and d = "Suc (Suc 0)" and donor = donor_font
        and prefix = "''mes_''" and donor' = donor_font and ?f2.0 = base_transplanted
        and n = 3 and iter = remdups and rb = "\<lambda>t g. Inr g" and out = merged_font]
    by blast
qed

section \<open>Properties of the Vertical Metrics Rebuilder\<close>








lemma copy_components_kept:
  "kept dst (fst (snd (outcome_state (copy_components d src dst cs))))"
proof -
  have "fst (outcome_state (copy_components d src dst cs)) = src
           \<and> kept dst (fst (snd (outcome_state (copy_components d src dst cs))))"
  proof (rule copy_preserves(2))
    show "kept f f" for f by (simp add: kept_def)
    show "kept f f' \<Longrightarrow> kept f' f'' \<Longrightarrow> kept f f''" for f f' f''
      using kept_keys [of f f'] by (auto simp: kept_def)
    show "kept f (f'\<lparr>glyf := AList.update b g (glyf f')\<rparr>)"
      if "b \<notin> keys (glyf f)" "kept f f'" for f f' b g
      using that by (auto simp: kept_def update_conv')
    show "kept f (f'\<lparr>hmtx := AList.update b m (hmtx f')\<rparr>)"
      if "b \<notin> keys (glyf f)" "kept f f'" for f f' b m
      using that by (auto simp: kept_def update_conv')
  qed
  then show ?thesis by simp
qed

lemma copy_components_src: "fst (outcome_state (copy_components d src dst cs)) = src"
  using copy_preserves(2) [where R = "\<lambda>f f'. True"] by simp

text \<open>What a loop that returned has done.\<close>

lemma copy_components_returned:
  "copy_components d src dst cs = Returned (s', d', cs') \<Longrightarrow>
     cs' = map rename_component cs \<and> (\<forall>c \<in> set cs. ens_name (glyphName c) \<in> keys (glyf d'))"
proof (induction cs arbitrary: src dst s' d' cs')
  case Nil
  then show ?case by simp
next
  case (Cons c cs)
  from Cons.prems obtain s1 d1 where
    h: "copy_glyph d src dst (glyphName c) (ens_name (glyphName c)) = Returned (s1, d1)"
    by (auto split: outcome.splits)
  from Cons.prems h obtain cs2 where
    t: "copy_components d s1 d1 cs = Returned (s', d', cs2)" and
    cs': "cs' = c\<lparr>glyphName := ens_name (glyphName c)\<rparr> # cs2"
    by (auto split: outcome.splits)
  have in1: "ens_name (glyphName c) \<in> keys (glyf d1)"
  proof (cases d)
    case 0
    then show ?thesis using h by simp
  next
    case (Suc d0)
    then show ?thesis using h
      by (auto simp: Let_def keys_update split: if_splits option.splits outcome.splits)
  qed
  have "kept d1 d'" using copy_components_kept [of d1 d s1 cs] t by simp
  then have "ens_name (glyphName c) \<in> keys (glyf d')" using in1 kept_keys by blast
  then show ?case using Cons.IH [OF t] cs' by (simp add: rename_component_def)
qed

lemma copy_glyph_returned_Suc:
  "copy_glyph d src dst a b = Returned st \<Longrightarrow> \<exists>d0. d = Suc d0"
  by (cases d) auto

lemma renamed_simple: "components g = [] \<Longrightarrow> renamed g = g"
  by (simp add: renamed_def)

text \<open>What a call that returned has written under a name the base lacked.\<close>

lemma copy_glyph_returned:
  assumes "copy_glyph d src dst a b = Returned (s', d')" "b \<notin> keys (glyf dst)"
  shows "\<exists>g m d0 dm. d = Suc d0 \<and> map_of (glyf src) a = Some g \<and> map_of (hmtx src) a = Some m
    \<and> (if components g \<noteq> []
        then (\<exists>cs'. copy_components d0 src dst (components g) = Returned (src, dm, cs'))
        else dm = dst)
    \<and> d' = dm\<lparr>glyf := AList.update b (renamed g) (glyf dm),
               hmtx := AList.update b m (hmtx dm)\<rparr>"
proof -
  obtain d0 where d: "d = Suc d0" using copy_glyph_returned_Suc [OF assms(1)] by blast
  obtain g where g: "map_of (glyf src) a = Some g"
    using assms d by (auto split: option.splits)
  show ?thesis
  proof (cases "components g = []")
    case True
    then have e: "g\<lparr>components := []\<rparr> = g" by (cases g) simp
    show ?thesis using True assms d g
      by (auto simp: e Let_def deepcopy_def renamed_simple split: option.splits)
  next
    case False
    obtain sm dm cs' where l: "copy_components d0 src dst (components g) = Returned (sm, dm, cs')"
      using assms d g False by (auto simp: deepcopy_def split: outcome.splits option.splits)
    have sm: "sm = src" using copy_components_src [of d0 src dst "components g"] l by simp
    have cs': "cs' = map rename_component (components g)"
      using copy_components_returned [OF l] by simp
    show ?thesis using assms d g False l sm cs'
      by (auto simp: Let_def deepcopy_def renamed_def split: option.splits)
  qed
qed

lemma copy_glyph_returned_content:
  assumes "copy_glyph d src dst a b = Returned (s', d')" "b \<notin> keys (glyf dst)"
  shows "\<exists>g m. map_of (glyf src) a = Some g \<and> map_of (hmtx src) a = Some m
    \<and> map_of (glyf d') b = Some (renamed g) \<and> map_of (hmtx d') b = Some m
    \<and> (\<forall>c \<in> set (components g). ens_name (glyphName c) \<in> keys (glyf d'))"
proof -
  from copy_glyph_returned [OF assms] obtain g m d0 dm where
    r: "d = Suc d0" "map_of (glyf src) a = Some g" "map_of (hmtx src) a = Some m"
      "if components g \<noteq> []
        then (\<exists>cs'. copy_components d0 src dst (components g) = Returned (src, dm, cs'))
        else dm = dst"
      "d' = dm\<lparr>glyf := AList.update b (renamed g) (glyf dm),
               hmtx := AList.update b m (hmtx dm)\<rparr>"
    by blast
  have "\<forall>c \<in> set (components g). ens_name (glyphName c) \<in> keys (glyf dm)"
  proof (cases "components g = []")
    case True then show ?thesis by simp
  next
    case False
    then obtain cs' where "copy_components d0 src dst (components g) = Returned (src, dm, cs')"
      using r(4) by auto
    from copy_components_returned [OF this] show ?thesis by simp
  qed
  then show ?thesis using r by (auto simp: update_conv' keys_update)
qed

lemma copy_glyph_returned_key:
  "copy_glyph d src dst a b = Returned (s', d') \<Longrightarrow> b \<in> keys (glyf d')"
proof (cases "b \<in> keys (glyf dst)")
  case True
  assume "copy_glyph d src dst a b = Returned (s', d')"
  then show ?thesis using True kept_keys [OF copy_glyph_kept [of dst d src a b]] by auto
next
  case False
  assume "copy_glyph d src dst a b = Returned (s', d')"
  from copy_glyph_returned_content [OF this False] show ?thesis
    by (auto simp: keys_map_of)
qed

lemma copied_from_kept:
  "kept f f' \<Longrightarrow> k \<in> keys (glyf f) \<Longrightarrow> copied_from src f k \<Longrightarrow> copied_from src f' k"
  by (auto simp: copied_from_def kept_def)

lemma copy_components_copied_step:
  assumes G: "\<And>src dst a b s' d'. copy_glyph d src dst a b = Returned (s', d')
      \<Longrightarrow> \<forall>k \<in> keys (glyf d') - keys (glyf dst). k \<noteq> b \<longrightarrow> copied_from src d' k"
  shows "copy_components d src dst cs = Returned (s', d', cs')
      \<Longrightarrow> \<forall>k \<in> keys (glyf d') - keys (glyf dst). copied_from src d' k"
proof (induction cs arbitrary: dst s' d' cs')
  case Nil
  then show ?case by simp
next
  case (Cons c cs)
  from Cons.prems obtain s1 d1 where
    h: "copy_glyph d src dst (glyphName c) (ens_name (glyphName c)) = Returned (s1, d1)"
    by (auto split: outcome.splits)
  have s1: "s1 = src" using copy_glyph_frame(1) [of d src dst "glyphName c" "ens_name (glyphName c)"] h
    by simp
  from Cons.prems h obtain cs2 where
    t: "copy_components d src d1 cs = Returned (s', d', cs2)"
    by (auto simp: s1 split: outcome.splits)
  have k1: "kept d1 d'" using copy_components_kept [of d1 d src cs] t by simp
  show ?case
  proof
    fix k assume k: "k \<in> keys (glyf d') - keys (glyf dst)"
    show "copied_from src d' k"
    proof (cases "k \<in> keys (glyf d1)")
      case False
      then show ?thesis using Cons.IH [OF t] k by blast
    next
      case True
      have "copied_from src d1 k"
      proof (cases "k = ens_name (glyphName c)")
        case False
        then show ?thesis using G [OF h] True k s1 by blast
      next
        case e: True
        then have "ens_name (glyphName c) \<notin> keys (glyf dst)" using k by simp
        from copy_glyph_returned_content [OF h this] show ?thesis
          unfolding copied_from_def e by blast
      qed
      then show ?thesis using copied_from_kept [OF k1 True] by simp
    qed
  qed
qed

lemma copy_glyph_copied:
  "copy_glyph d src dst a b = Returned (s', d')
      \<Longrightarrow> \<forall>k \<in> keys (glyf d') - keys (glyf dst). k \<noteq> b \<longrightarrow> copied_from src d' k"
proof (induction d arbitrary: src dst a b s' d')
  case 0
  then show ?case by simp
next
  case (Suc d0)
  show ?case
  proof (cases "b \<in> keys (glyf dst)")
    case True
    then show ?thesis using Suc.prems by simp
  next
    case False
    from copy_glyph_returned [OF Suc.prems False] obtain g m dm where
      r: "map_of (glyf src) a = Some g" "map_of (hmtx src) a = Some m"
        "if components g \<noteq> []
          then (\<exists>cs'. copy_components d0 src dst (components g) = Returned (src, dm, cs'))
          else dm = dst"
        "d' = dm\<lparr>glyf := AList.update b (renamed g) (glyf dm),
               hmtx := AList.update b m (hmtx dm)\<rparr>"
      by auto
    have mid: "\<forall>k \<in> keys (glyf dm) - keys (glyf dst). copied_from src dm k"
    proof (cases "components g = []")
      case True then show ?thesis using r(3) by simp
    next
      case False
      then obtain cs' where "copy_components d0 src dst (components g) = Returned (src, dm, cs')"
        using r(3) by auto
      from copy_components_copied_step [OF Suc.IH this] show ?thesis by simp
    qed
    show ?thesis
    proof (intro ballI impI)
      fix k assume k: "k \<in> keys (glyf d') - keys (glyf dst)" "k \<noteq> b"
      then have "k \<in> keys (glyf dm) - keys (glyf dst)" using r(4) by (auto simp: keys_update)
      then have "copied_from src dm k" using mid by blast
      then show "copied_from src d' k" using k(2) r(4)
        by (auto simp: copied_from_def update_conv')
    qed
  qed
qed

lemma copy_components_copied:
  "copy_components d src dst cs = Returned (s', d', cs')
      \<Longrightarrow> \<forall>k \<in> keys (glyf d') - keys (glyf dst). copied_from src d' k"
  by (rule copy_components_copied_step [OF copy_glyph_copied])

lemma ens_name_inject [simp]: "ens_name x = ens_name y \<longleftrightarrow> x = y"
  by (simp add: ens_name_def)


section \<open>Deduplication in \<open>copy_glyph\<close>\<close>

lemma one_entry:
  "distinct (map fst xs) \<Longrightarrow> k \<in> keys xs \<Longrightarrow> length (filter (\<lambda>e. fst e = k) xs) = 1"
proof (induction xs)
  case Nil
  then show ?case by (simp add: keys_def)
next
  case (Cons x xs)
  show ?case
  proof (cases "fst x = k")
    case True
    then have "k \<notin> fst ` set xs" using Cons.prems(1) by auto
    then have "filter (\<lambda>e. fst e = k) xs = []" by (auto simp: filter_empty_conv)
    then show ?thesis using True by simp
  next
    case False
    then show ?thesis using Cons by (auto simp: keys_def)
  qed
qed

text \<open>
  C4. When the destination name is already in the outline table of the base,
  \<open>copy_glyph\<close> changes nothing, in any table of either font, and (below the
  recursion limit) returns. So a second call with the same destination name, made after
  the first, leaves the outcome of the first; the loop over two components of one name
  ends in the fonts the loop over the first alone ends in; and after a copy that returned,
  the outline table (with distinct keys before) has exactly one entry under the new name of
  each component.
\<close>

theorem copy_glyph_skips_existing:
  "(b \<in> keys (glyf dst) \<longrightarrow>
       outcome_state (copy_glyph d src dst a b) = (src, dst)
       \<and> copy_glyph (Suc d) src dst a b = Returned (src, dst))
   \<and> and_then (copy_glyph d src dst a b) (\<lambda>(s, t). copy_glyph d s t a2 b)
       = copy_glyph d src dst a b
   \<and> (glyphName c = glyphName c2 \<and> copy_components d src dst [c] = Returned (s1, d1, cs1) \<longrightarrow>
        copy_components d src dst [c, c2] = Returned (s1, d1, cs1 @ [rename_component c2]))
   \<and> (copy_glyph d src dst a b = Returned (s', d') \<and> b \<notin> keys (glyf dst)
        \<and> map_of (glyf src) a = Some g \<and> distinct (map fst (glyf dst)) \<longrightarrow>
        (\<forall>c \<in> set (components g).
           length (filter (\<lambda>e. fst e = ens_name (glyphName c)) (glyf d')) = 1))"
proof (intro conjI impI)
  assume "b \<in> keys (glyf dst)"
  then show "outcome_state (copy_glyph d src dst a b) = (src, dst)"
    by (cases d) simp_all
next
  assume "b \<in> keys (glyf dst)"
  then show "copy_glyph (Suc d) src dst a b = Returned (src, dst)" by simp
next
  show "and_then (copy_glyph d src dst a b) (\<lambda>(s, t). copy_glyph d s t a2 b)
       = copy_glyph d src dst a b"
  proof (cases "copy_glyph d src dst a b")
    case (Raised e st)
    then show ?thesis by simp
  next
    case (Returned st)
    obtain s1 d1 where st: "st = (s1, d1)" by (cases st) auto
    obtain d0 where d: "d = Suc d0" using copy_glyph_returned_Suc [OF Returned] by blast
    have "b \<in> keys (glyf d1)" using copy_glyph_returned_key Returned st by blast
    then have "copy_glyph d s1 d1 a2 b = Returned (s1, d1)" using d by simp
    then show ?thesis using Returned st by simp
  qed
next
  assume a: "glyphName c = glyphName c2 \<and> copy_components d src dst [c] = Returned (s1, d1, cs1)"
  then have h: "copy_glyph d src dst (glyphName c) (ens_name (glyphName c)) = Returned (s1, d1)"
    and cs1: "cs1 = [c\<lparr>glyphName := ens_name (glyphName c)\<rparr>]"
    by (auto split: outcome.splits)
  obtain d0 where d: "d = Suc d0" using copy_glyph_returned_Suc [OF h] by blast
  have "ens_name (glyphName c2) \<in> keys (glyf d1)"
    using copy_glyph_returned_key [OF h] a by simp
  then have "copy_glyph d s1 d1 (glyphName c2) (ens_name (glyphName c2)) = Returned (s1, d1)"
    using d by simp
  then show "copy_components d src dst [c, c2] = Returned (s1, d1, cs1 @ [rename_component c2])"
    using h cs1 by (simp add: rename_component_def)
next
  assume a: "copy_glyph d src dst a b = Returned (s', d') \<and> b \<notin> keys (glyf dst)
        \<and> map_of (glyf src) a = Some g \<and> distinct (map fst (glyf dst))"
  then have dist: "distinct (map fst (glyf d'))"
    using copy_glyph_distinct [of dst d src a b] by simp
  from a copy_glyph_returned_content [of d src dst a b s' d']
  have "\<forall>c \<in> set (components g). ens_name (glyphName c) \<in> keys (glyf d')" by auto
  then show "\<forall>c \<in> set (components g).
           length (filter (\<lambda>e. fst e = ens_name (glyphName c)) (glyf d')) = 1"
    using one_entry [OF dist] by blast
qed

lemma quotedbl_example:
  "copy_glyph (Suc (Suc 0)) twin_donor base_font ''quotedbl'' ''mes_uni0022''
     = Returned (twin_donor, base_with_quotedbl)"
  by (simp add: twin_donor_def base_with_quotedbl_def font_eval copy_eval)

theorem copy_glyph_skips_existing_witness:
  "''mes_uni0022'' \<in> keys (glyf base_with_quotedbl)
   \<and> copy_glyph (Suc (Suc 0)) twin_donor base_with_quotedbl ''quotedbl'' ''mes_uni0022''
       = Returned (twin_donor, base_with_quotedbl)
   \<and> copy_glyph (Suc (Suc 0)) twin_donor base_font ''quotedbl'' ''mes_uni0022''
       = Returned (twin_donor, base_with_quotedbl)
   \<and> ''mes_uni0022'' \<notin> keys (glyf base_font)
   \<and> distinct (map fst (glyf base_font))
   \<and> length (filter (\<lambda>e. fst e = ''_ens_quotesingle'') (glyf base_with_quotedbl)) = 1"
proof -
  have k: "''mes_uni0022'' \<in> keys (glyf base_with_quotedbl)"
    by (simp add: keys_def base_with_quotedbl_def font_eval)
  have nk: "''mes_uni0022'' \<notin> keys (glyf base_font)"
    by (simp add: keys_def font_eval)
  have di: "distinct (map fst (glyf base_font))" by (simp add: font_eval)
  have g: "map_of (glyf twin_donor) ''quotedbl''
      = Some (composite_glyph [''quotesingle'', ''quotesingle''])"
    by (simp add: twin_donor_def font_eval)
  have c: "\<lparr>glyphName = ''quotesingle'', x_offset = 0, y_offset = 0\<rparr>
      \<in> set (components (composite_glyph [''quotesingle'', ''quotesingle'']))"
    by (simp add: composite_glyph_def)
  have again: "copy_glyph (Suc (Suc 0)) twin_donor base_with_quotedbl ''quotedbl'' ''mes_uni0022''
       = Returned (twin_donor, base_with_quotedbl)"
    using k copy_glyph_skips_existing [where b = "''mes_uni0022''" and dst = base_with_quotedbl
        and d = "Suc 0" and src = twin_donor and a = "''quotedbl''"]
    by blast
  have "\<forall>c \<in> set (components (composite_glyph [''quotesingle'', ''quotesingle''])).
      length (filter (\<lambda>e. fst e = ens_name (glyphName c)) (glyf base_with_quotedbl)) = 1"
    using quotedbl_example nk g di
      copy_glyph_skips_existing [where b = "''mes_uni0022''" and dst = base_font
        and d = "Suc (Suc 0)" and src = twin_donor and a = "''quotedbl''"
        and s' = twin_donor and d' = base_with_quotedbl
        and g = "composite_glyph [''quotesingle'', ''quotesingle'']"]
    by blast
  then have "length (filter (\<lambda>e. fst e = ''_ens_quotesingle'') (glyf base_with_quotedbl)) = 1"
    using c by (auto simp: ens_name_def)
  then show ?thesis using k nk di again quotedbl_example by blast
qed

section \<open>Copying a composite glyph\<close>






section \<open>The loop of \<open>transplant_glyphs\<close>\<close>

lemma transplant_loop_append:
  "transplant_loop d p (xs @ ys) st = transplant_loop d p ys (transplant_loop d p xs st)"
proof (induction xs arbitrary: st)
  case Nil
  show ?case by simp
next
  case (Cons e xs)
  obtain cp gn where e: "e = (cp, gn)" by (cases e) auto
  obtain s t c where st: "st = (s, t, c)" using prod_cases3 by blast
  show ?case using Cons.IH
    by (simp add: e st Let_def split: outcome.splits prod.splits)
qed

lemma state_after_0 [simp]: "state_after d p es st 0 = st"
  by (simp add: state_after_def)

lemma state_after_Suc:
  "k < length es \<Longrightarrow>
     state_after d p es st (Suc k) = transplant_loop d p [es ! k] (state_after d p es st k)"
  by (simp add: state_after_def take_Suc_conv_app_nth transplant_loop_append)

lemma state_after_all: "state_after d p es st (length es) = transplant_loop d p es st"
  by (simp add: state_after_def)

text \<open>One iteration, by the outcome of its copy.\<close>

lemma step_cases:
  assumes "k < length es" "state_after d p es st k = (s1, d1, c1)"
    "state_after d p es st (Suc k) = (s2, d2, c2)"
  shows "s2 = s1 \<and>
    (if copy_ok d p es st k
     then c2 = Suc c1 \<and> (\<exists>dm. outlines_only d1 dm \<and> kept d1 dm
            \<and> d2 = update_cmap dm (fst (es ! k)) (glyph_name_for_codepoint (fst (es ! k)) p))
     else c2 = c1 \<and> outlines_only d1 d2 \<and> kept d1 d2)"
proof -
  obtain cp gn where e: "es ! k = (cp, gn)" by (cases "es ! k") auto
  let ?r = "copy_glyph d s1 d1 gn (glyph_name_for_codepoint cp p)"
  have fr: "fst (outcome_state ?r) = s1" "outlines_only d1 (snd (outcome_state ?r))"
    "kept d1 (snd (outcome_state ?r))"
    using copy_glyph_frame [where d = d and src = s1 and dst = d1 and a = gn
        and b = "glyph_name_for_codepoint cp p"]
      copy_glyph_kept [where d = d and src = s1 and dst = d1 and a = gn
        and b = "glyph_name_for_codepoint cp p"] by simp_all
  have ok: "copy_ok d p es st k = returned ?r"
    using assms(2) e by (simp add: copy_ok_def)
  have nx: "(s2, d2, c2) = transplant_loop d p [(cp, gn)] (s1, d1, c1)"
    using state_after_Suc [OF assms(1), of d p st] assms(2,3) e by simp
  show ?thesis
  proof (cases ?r)
    case (Returned x)
    obtain s' d' where x: "x = (s', d')" by (cases x) auto
    show ?thesis using Returned x fr ok nx e by (auto simp: Let_def)
  next
    case (Raised err x)
    obtain s' d' where x: "x = (s', d')" by (cases x) auto
    show ?thesis using Raised x fr ok nx e by (auto simp: Let_def)
  qed
qed


lemma same_at_refl: "same_at cp f f"
  by (simp add: same_at_def list_all2_refl)

lemma same_at_trans:
  assumes "same_at cp f f'" "same_at cp f' f''"
  shows "same_at cp f f''"
  using assms unfolding same_at_def by (rule list_all2_trans [rotated]) auto

lemma same_at_outlines: "outlines_only f f' \<Longrightarrow> same_at cp f f'"
  using outlines_only_cmap [of f f'] by (simp add: same_at_def list_all2_refl)

lemma update_subtable_other:
  "cp' \<noteq> cp \<Longrightarrow> map_of (cmap (update_subtable cp' n t)) cp = map_of (cmap t) cp"
  by (simp add: update_subtable_def Let_def update_conv')

lemma update_subtable_ids [simp]:
  "platformID (update_subtable cp n t) = platformID t"
  "platEncID (update_subtable cp n t) = platEncID t"
  "format (update_subtable cp n t) = format t"
  by (simp_all add: update_subtable_def Let_def)

lemma same_at_update_cmap: "cp' \<noteq> cp \<Longrightarrow> same_at cp f (update_cmap f cp' n)"
  by (simp add: same_at_def update_cmap_def list_all2_map2 list_all2_refl update_subtable_other)

lemma first_cmap_same:
  assumes "list_all2 (\<lambda>t t'. p t' = p t \<and> map_of (cmap t') cp = map_of (cmap t) cp) ts ts'"
  shows "map_option (\<lambda>m. map_of m cp) (first_cmap p ts')
       = map_option (\<lambda>m. map_of m cp) (first_cmap p ts)"
  using assms by (induction rule: list_all2_induct) auto

lemma same_at_lookup:
  assumes "same_at cp f f'"
  shows "cmap_lookup f' cp = cmap_lookup f cp"
proof -
  have a: "map_option (\<lambda>m. map_of m cp) (first_cmap p (cmap_tables f'))
       = map_option (\<lambda>m. map_of m cp) (first_cmap p (cmap_tables f))"
    if "p = win_full \<or> p = win_bmp \<or> p = uni_platform" for p
  proof (rule first_cmap_same)
    show "list_all2 (\<lambda>t t'. p t' = p t \<and> map_of (cmap t') cp = map_of (cmap t) cp)
        (cmap_tables f) (cmap_tables f')"
      using assms that unfolding same_at_def
      by (auto simp: win_full_def win_bmp_def uni_platform_def elim!: list_all2_mono)
  qed
  have L: "cmap_lookup g cp =
      (case map_option (\<lambda>m. map_of m cp) (first_cmap win_full (cmap_tables g)) of
         Some r \<Rightarrow> r
       | None \<Rightarrow>
          (case map_option (\<lambda>m. map_of m cp) (first_cmap win_bmp (cmap_tables g)) of
             Some r \<Rightarrow> r
           | None \<Rightarrow>
              (case map_option (\<lambda>m. map_of m cp) (first_cmap uni_platform (cmap_tables g)) of
                 Some r \<Rightarrow> r
               | None \<Rightarrow> None)))" for g
    by (simp add: cmap_lookup_def get_best_cmap_def split: option.splits)
  show ?thesis
    by (simp only: L a [of win_full, simplified] a [of win_bmp, simplified]
        a [of uni_platform, simplified])
qed

text \<open>The loop, iteration by iteration.\<close>

lemma loop_invariant:
  assumes "k \<le> length es" "state_after d p es (src, dst, c0) k = (sk, dk, ck)"
  shows "sk = src
    \<and> ck = c0 + length (filter (copy_ok d p es (src, dst, c0)) [0..<k])
    \<and> kept dst dk
    \<and> ((\<forall>j < k. fst (es ! j) = cp \<longrightarrow> \<not> copy_ok d p es (src, dst, c0) j) \<longrightarrow> same_at cp dst dk)"
  using assms
proof (induction k arbitrary: sk dk ck)
  case 0
  then show ?case by (simp add: same_at_refl kept_def)
next
  case (Suc k)
  obtain s1 d1 c1 where s1: "state_after d p es (src, dst, c0) k = (s1, d1, c1)"
    using prod_cases3 by blast
  have kl: "k < length es" using Suc.prems(1) by simp
  then have ih: "s1 = src"
    "c1 = c0 + length (filter (copy_ok d p es (src, dst, c0)) [0..<k])"
    "kept dst d1"
    "(\<forall>j < k. fst (es ! j) = cp \<longrightarrow> \<not> copy_ok d p es (src, dst, c0) j) \<longrightarrow> same_at cp dst d1"
    using Suc.IH [OF _ s1] by simp_all
  note st = step_cases [OF kl s1 Suc.prems(2)]
  have kt: "kept d1 dk"
  proof (cases "copy_ok d p es (src, dst, c0) k")
    case True
    then obtain dm where "kept d1 dm"
      "dk = update_cmap dm (fst (es ! k)) (glyph_name_for_codepoint (fst (es ! k)) p)"
      using st by auto
    then show ?thesis by (simp add: kept_def update_cmap_def)
  next
    case False
    then show ?thesis using st by simp
  qed
  have kept_trans: "kept dst dk"
    using ih(3) kt kept_keys [OF ih(3)] by (auto simp: kept_def)
  have sm: "same_at cp dst dk"
    if a: "\<forall>j < Suc k. fst (es ! j) = cp \<longrightarrow> \<not> copy_ok d p es (src, dst, c0) j"
  proof -
    have b: "same_at cp dst d1" using ih(4) a by simp
    have "same_at cp d1 dk"
    proof (cases "copy_ok d p es (src, dst, c0) k")
      case True
      then have ne: "fst (es ! k) \<noteq> cp" using a by auto
      from True obtain dm where dm: "outlines_only d1 dm"
        "dk = update_cmap dm (fst (es ! k)) (glyph_name_for_codepoint (fst (es ! k)) p)"
        using st by auto
      show ?thesis
        using same_at_trans [OF same_at_outlines [OF dm(1)] same_at_update_cmap [OF ne]] dm(2)
        by simp
    next
      case False
      then show ?thesis using st same_at_outlines by simp
    qed
    then show ?thesis using b same_at_trans by blast
  qed
  show ?case using st ih(1,2) kept_trans sm by simp
qed

section \<open>Base priority\<close>

lemma transplant_glyphs_loop:
  "get_best_cmap src = Inr es \<Longrightarrow>
     transplant_glyphs d src dst prefix = Inr (state_after d prefix es (src, dst, 0) (length es))"
  by (simp add: transplant_glyphs_def state_after_all)

text \<open>
  C1, as stated, fails. \<open>transplant_glyphs\<close> never looks at what the base maps
  (its docstring: "Copy every codepoint from src_font into dst_font, overwriting any
  existing entry"): the base maps \<open>U+0041\<close> to its own glyph before the merge, the
  donor maps \<open>U+0041\<close> too, and afterwards the base maps it to the transplanted glyph.
\<close>

theorem transplant_overwrites_shared_codepoint:
  "cmap_lookup base_font 0x41 = Some ''base_A''
   \<and> ensure_cmap_subtables base_font = Inr base_ensured
   \<and> cmap_lookup base_ensured 0x41 = Some ''base_A''
   \<and> transplant_glyphs (Suc (Suc 0)) donor_font base_ensured ''mes_''
       = Inr (donor_font, base_transplanted, 3)
   \<and> cmap_lookup base_transplanted 0x41 = Some ''mes_uni0041''
   \<and> cmap_lookup base_transplanted 0x41 \<noteq> cmap_lookup base_font 0x41"
proof -
  have "cmap_lookup base_font 0x41 = Some ''base_A''"
    by (simp add: cmap_lookup_def font_eval cmap_eval)
  moreover have "cmap_lookup base_ensured 0x41 = Some ''base_A''"
    by (simp add: cmap_lookup_def font_eval cmap_eval)
  moreover have "cmap_lookup base_transplanted 0x41 = Some ''mes_uni0041''"
    by (simp add: cmap_lookup_def font_eval cmap_eval)
  ultimately show ?thesis using ensure_base transplant_example by simp
qed

text \<open>
  C1, amended. A codepoint that the resolved cmap of the donor does not map keeps its
  glyph name in the base: every subtable of the base maps it as before (and keeps its
  platform, encoding and format), and so does the resolved cmap of the base.
\<close>

theorem transplant_keeps_unshared_codepoints:
  assumes "transplant_glyphs d src dst prefix = Inr (src', dst', n)"
    "get_best_cmap src = Inr m" "cp \<notin> keys m"
  shows "same_at cp dst dst' \<and> cmap_lookup dst' cp = cmap_lookup dst cp"
proof -
  have st: "state_after d prefix m (src, dst, 0) (length m) = (src', dst', n)"
    using assms(1) transplant_glyphs_loop [OF assms(2), of d dst prefix] by simp
  have "\<forall>j < length m. fst (m ! j) = cp \<longrightarrow> \<not> copy_ok d prefix m (src, dst, 0) j"
    using assms(3) by (auto simp: keys_def)
  then have "same_at cp dst dst'"
    using loop_invariant [OF le_refl st, of cp] by blast
  then show ?thesis using same_at_lookup by blast
qed

theorem transplant_keeps_unshared_codepoints_witness:
  "transplant_glyphs (Suc (Suc 0)) donor_font base_ensured ''mes_''
       = Inr (donor_font, base_transplanted, 3)
   \<and> get_best_cmap donor_font = Inr [(0x41, ''A''), (0xC1, ''Aacute''), (0xF0001, ''icon'')]
   \<and> 0x4E2D \<notin> keys [(0x41::nat, ''A''), (0xC1, ''Aacute''), (0xF0001, ''icon'')]
   \<and> cmap_lookup base_ensured 0x4E2D = Some ''cjk_zhong''
   \<and> cmap_lookup base_transplanted 0x4E2D = Some ''cjk_zhong''"
proof -
  have m: "get_best_cmap donor_font = Inr [(0x41, ''A''), (0xC1, ''Aacute''), (0xF0001, ''icon'')]"
    by (simp add: font_eval cmap_eval)
  have nk: "0x4E2D \<notin> keys [(0x41::nat, ''A''), (0xC1, ''Aacute''), (0xF0001, ''icon'')]"
    by (simp add: keys_def)
  have b: "cmap_lookup base_ensured 0x4E2D = Some ''cjk_zhong''"
    by (simp add: cmap_lookup_def font_eval cmap_eval)
  have "cmap_lookup base_transplanted 0x4E2D = cmap_lookup base_ensured 0x4E2D"
    using transplant_keeps_unshared_codepoints [OF transplant_example m nk] by simp
  then show ?thesis using transplant_example m nk b by simp
qed

section \<open>Containment of a failed copy\<close>

lemma broken_es:
  "get_best_cmap broken_donor = Inr [(0xC1, ''Aacute''), (0x41, ''A'')]"
  by (simp add: broken_donor_def font_eval cmap_eval)

lemma broken_first:
  "copy_glyph (Suc (Suc 0)) broken_donor base_ensured ''Aacute'' ''mes_uni00C1''
     = Raised KeyError (broken_donor, base_after_failed_copy)"
  by (simp add: broken_donor_def base_after_failed_copy_def font_eval copy_eval)

lemma broken_name: "glyph_name_for_codepoint 0xC1 ''mes_'' = ''mes_uni00C1''"
  by (simp add: name_eval)

lemma broken_loop:
  "transplant_glyphs (Suc (Suc 0)) broken_donor base_ensured ''mes_''
     = Inr (broken_donor, base_after_broken, 1)"
  by (simp add: transplant_glyphs_def broken_donor_def base_after_broken_def font_eval cmap_eval
      copy_eval name_eval)

lemma broken_not_ok:
  "\<not> copy_ok (Suc (Suc 0)) ''mes_'' [(0xC1, ''Aacute''), (0x41, ''A'')]
         (broken_donor, base_ensured, 0) 0"
  unfolding copy_ok_def by (simp add: broken_name broken_first del: copy_glyph.simps)

lemma broken_state:
  "state_after (Suc (Suc 0)) ''mes_'' [(0xC1, ''Aacute''), (0x41, ''A'')]
         (broken_donor, base_ensured, 0) (Suc 0) = (broken_donor, base_after_failed_copy, 0)"
  unfolding state_after_def by (simp add: broken_name broken_first del: copy_glyph.simps)

text \<open>
  C7, as stated, fails in one part: a codepoint whose copy fails can leave glyphs in the
  outline table. The exception of \<open>copy_glyph\<close> is caught, but the writes made before
  it are not undone: the copy of the composite \<open>Aacute\<close> raises at its second
  component, after the first component has been copied into the base.
\<close>

theorem failed_copy_leaves_outlines:
  "get_best_cmap broken_donor = Inr [(0xC1, ''Aacute''), (0x41, ''A'')]
   \<and> \<not> copy_ok (Suc (Suc 0)) ''mes_'' [(0xC1, ''Aacute''), (0x41, ''A'')]
         (broken_donor, base_ensured, 0) 0
   \<and> state_after (Suc (Suc 0)) ''mes_'' [(0xC1, ''Aacute''), (0x41, ''A'')]
         (broken_donor, base_ensured, 0) (Suc 0) = (broken_donor, base_after_failed_copy, 0)
   \<and> ''_ens_A'' \<notin> keys (glyf base_ensured)
   \<and> ''_ens_A'' \<in> keys (glyf base_after_failed_copy)
   \<and> glyf base_after_failed_copy \<noteq> glyf base_ensured"
proof -
  have k: "''_ens_A'' \<notin> keys (glyf base_ensured)"
    "''_ens_A'' \<in> keys (glyf base_after_failed_copy)"
    by (simp_all add: keys_def base_after_failed_copy_def font_eval)
  then have "glyf base_after_failed_copy \<noteq> glyf base_ensured" by auto
  then show ?thesis using broken_es broken_not_ok broken_state k by simp
qed

text \<open>
  C7, amended. The loop of \<open>transplant_glyphs\<close> makes one iteration for every entry
  of the donor's resolved cmap, whatever the outcome of the iterations before it. An
  iteration whose copy raises leaves the cmap subtables and the count as they were, and
  the glyphs the outline table already had keep their outline and metrics. An iteration
  whose copy returns adds one to the count. The value returned is the number of iterations
  whose copy returned (the cmap update that follows cannot fail). A codepoint all of whose
  copies failed is mapped by every subtable of the base, and by its resolved cmap, as
  before the loop.
\<close>

theorem transplant_failure_contained:
  fixes d :: nat and prefix :: string and src dst :: font
  assumes "get_best_cmap src = Inr es"
  defines "S \<equiv> state_after d prefix es (src, dst, 0)"
    and "ok \<equiv> copy_ok d prefix es (src, dst, 0)"
  shows "transplant_glyphs d src dst prefix = Inr (S (length es))
    \<and> (\<forall>k < length es. S (Suc k) = transplant_loop d prefix [es ! k] (S k))
    \<and> (\<forall>k < length es. \<not> ok k \<longrightarrow>
          cmap_tables (fst (snd (S (Suc k)))) = cmap_tables (fst (snd (S k)))
          \<and> snd (snd (S (Suc k))) = snd (snd (S k))
          \<and> kept (fst (snd (S k))) (fst (snd (S (Suc k)))))
    \<and> (\<forall>k < length es. ok k \<longrightarrow> snd (snd (S (Suc k))) = Suc (snd (snd (S k))))
    \<and> snd (snd (S (length es))) = length (filter ok [0..<length es])
    \<and> (\<forall>cp. (\<forall>k < length es. fst (es ! k) = cp \<longrightarrow> \<not> ok k) \<longrightarrow>
          same_at cp dst (fst (snd (S (length es))))
          \<and> cmap_lookup (fst (snd (S (length es)))) cp = cmap_lookup dst cp)"
proof -
  have p1: "transplant_glyphs d src dst prefix = Inr (S (length es))"
    unfolding S_def by (rule transplant_glyphs_loop [OF assms(1)])
  have p2: "\<forall>k < length es. S (Suc k) = transplant_loop d prefix [es ! k] (S k)"
    unfolding S_def by (simp add: state_after_Suc)
  have p3: "\<forall>k < length es. \<not> ok k \<longrightarrow>
          cmap_tables (fst (snd (S (Suc k)))) = cmap_tables (fst (snd (S k)))
          \<and> snd (snd (S (Suc k))) = snd (snd (S k))
          \<and> kept (fst (snd (S k))) (fst (snd (S (Suc k))))"
  proof (intro allI impI)
    fix k assume k: "k < length es" and nok: "\<not> ok k"
    obtain s1 d1 c1 where s1: "S k = (s1, d1, c1)" using prod_cases3 by blast
    obtain s2 d2 c2 where s2: "S (Suc k) = (s2, d2, c2)" using prod_cases3 by blast
    from step_cases [OF k s1 [unfolded S_def] s2 [unfolded S_def]] nok
    have "c2 = c1" "outlines_only d1 d2" "kept d1 d2" by (simp_all add: ok_def)
    then show "cmap_tables (fst (snd (S (Suc k)))) = cmap_tables (fst (snd (S k)))
          \<and> snd (snd (S (Suc k))) = snd (snd (S k))
          \<and> kept (fst (snd (S k))) (fst (snd (S (Suc k))))"
      using s1 s2 outlines_only_cmap by simp
  qed
  have p4: "\<forall>k < length es. ok k \<longrightarrow> snd (snd (S (Suc k))) = Suc (snd (snd (S k)))"
  proof (intro allI impI)
    fix k assume k: "k < length es" and isok: "ok k"
    obtain s1 d1 c1 where s1: "S k = (s1, d1, c1)" using prod_cases3 by blast
    obtain s2 d2 c2 where s2: "S (Suc k) = (s2, d2, c2)" using prod_cases3 by blast
    from step_cases [OF k s1 [unfolded S_def] s2 [unfolded S_def]] isok
    have "c2 = Suc c1" by (simp add: ok_def)
    then show "snd (snd (S (Suc k))) = Suc (snd (snd (S k)))" using s1 s2 by simp
  qed
  obtain sn dn cn where sn: "S (length es) = (sn, dn, cn)" using prod_cases3 by blast
  have p5: "snd (snd (S (length es))) = length (filter ok [0..<length es])"
    using loop_invariant [OF le_refl sn [unfolded S_def]] sn by (simp add: ok_def)
  have p6: "\<forall>cp. (\<forall>k < length es. fst (es ! k) = cp \<longrightarrow> \<not> ok k) \<longrightarrow>
          same_at cp dst (fst (snd (S (length es))))
          \<and> cmap_lookup (fst (snd (S (length es)))) cp = cmap_lookup dst cp"
  proof (intro allI impI)
    fix cp assume a: "\<forall>k < length es. fst (es ! k) = cp \<longrightarrow> \<not> ok k"
    from loop_invariant [OF le_refl sn [unfolded S_def], of cp] a
    have "same_at cp dst dn" by (simp add: ok_def)
    then show "same_at cp dst (fst (snd (S (length es))))
          \<and> cmap_lookup (fst (snd (S (length es)))) cp = cmap_lookup dst cp"
      using sn same_at_lookup by simp
  qed
  show ?thesis
    apply (rule conjI, rule p1)
    apply (rule conjI, rule p2)
    apply (rule conjI, rule p3)
    apply (rule conjI, rule p4)
    apply (rule conjI, rule p5)
    apply (rule p6)
    done
qed


theorem transplant_failure_contained_witness:
  "get_best_cmap broken_donor = Inr [(0xC1, ''Aacute''), (0x41, ''A'')]
   \<and> transplant_glyphs (Suc (Suc 0)) broken_donor base_ensured ''mes_''
       = Inr (broken_donor, base_after_broken, 1)
   \<and> state_after (Suc (Suc 0)) ''mes_'' [(0xC1, ''Aacute''), (0x41, ''A'')]
         (broken_donor, base_ensured, 0) (length [(0xC1::nat, ''Aacute''), (0x41, ''A'')])
       = (broken_donor, base_after_broken, 1)
   \<and> length (filter (copy_ok (Suc (Suc 0)) ''mes_'' [(0xC1, ''Aacute''), (0x41, ''A'')]
         (broken_donor, base_ensured, 0)) [0..<length [(0xC1::nat, ''Aacute''), (0x41, ''A'')]]) = 1
   \<and> cmap_lookup base_after_broken 0xC1 = cmap_lookup base_ensured 0xC1"
proof -
  let ?es = "[(0xC1::nat, ''Aacute''), (0x41, ''A'')]"
  let ?S = "state_after (Suc (Suc 0)) ''mes_'' ?es (broken_donor, base_ensured, 0)"
  let ?ok = "copy_ok (Suc (Suc 0)) ''mes_'' ?es (broken_donor, base_ensured, 0)"
  note t = transplant_failure_contained [OF broken_es, of "Suc (Suc 0)" base_ensured "''mes_''"]
  note t1 = t [THEN conjunct1]
  note t5 = t [THEN conjunct2, THEN conjunct2, THEN conjunct2, THEN conjunct2, THEN conjunct1]
  note t6 = t [THEN conjunct2, THEN conjunct2, THEN conjunct2, THEN conjunct2, THEN conjunct2]
  have "Inr (?S (length ?es)) = (Inr (broken_donor, base_after_broken, 1) :: error + _)"
    unfolding t1 [symmetric] by (rule broken_loop)
  then have fin: "?S (length ?es) = (broken_donor, base_after_broken, 1)"
    by (simp only: sum.inject)
  have "1 = length (filter ?ok [0..<length ?es])"
    using t5 unfolding fin by (simp only: snd_conv)
  then have cnt: "length (filter ?ok [0..<length ?es]) = 1" by (rule sym)
  have "\<forall>k < length ?es. fst (?es ! k) = 0xC1 \<longrightarrow> \<not> ?ok k"
    using broken_not_ok by (auto simp: less_Suc_eq)
  then have "cmap_lookup (fst (snd (?S (length ?es)))) 0xC1 = cmap_lookup base_ensured 0xC1"
    using t6 by blast
  then have lk: "cmap_lookup base_after_broken 0xC1 = cmap_lookup base_ensured 0xC1"
    unfolding fin by (simp only: fst_conv snd_conv)
  show ?thesis using broken_es broken_loop fin cnt lk by blast
qed

end
